theory Spec2Isabelle
  imports Main "HOL-Library.Multiset"
begin

section \<open>The namespace consistency checker of the virtual-cluster syncer\<close>

text \<open>
  A shallow embedding of \<^verbatim>\<open>pkg/syncer/resources/namespace/checker.go\<close>: the periodic
  checker that compares the namespaces of the super master (physical side) with the
  namespaces of every tenant master (virtual side), requeues tenant namespaces whose
  super master counterpart is missing and deletes super master namespaces whose tenant
  namespace is gone or has another UID.

  The checker talks to collaborators that live outside the file: the multi-cluster
  namespace controller, the super master namespace lister and client, the conversion
  helpers, the constants and the metrics. They are fields of the record \<open>controller\<close>,
  so every theorem holds for all of them. Everything the checker does to the outside is
  written down in the state: the calls it makes, the lines it logs, the counters it
  increments.
\<close>

subsection \<open>Objects and errors\<close>

text \<open>
  Of \<^verbatim>\<open>v1.Namespace\<close> the checker reads the name, the UID and the annotations. Reading
  a key that a Go map does not hold gives the empty string.
\<close>

record namespace =
  Name :: string
  UID :: string
  Annotations :: "string \<rightharpoonup> string"

definition annotation :: "namespace \<Rightarrow> string \<Rightarrow> string" where
  "annotation ns k = (case Annotations ns k of None \<Rightarrow> [] | Some v \<Rightarrow> v)"

text \<open>
  A Go \<^verbatim>\<open>error\<close> value is \<open>error option\<close>, \<open>None\<close> being \<^verbatim>\<open>nil\<close>. The checker only asks
  whether an error is a not-found status.
\<close>

datatype error = NotFound | OtherError string

fun IsNotFound :: "error option \<Rightarrow> bool" where
  "IsNotFound (Some NotFound) = True"
| "IsNotFound _ = False"

text \<open>
  \<^verbatim>\<open>metav1.DeleteOptions\<close> with the two fields the checker sets;
  \<^verbatim>\<open>metav1.NewUIDPreconditions\<close> builds a precondition on the UID.
\<close>

datatype preconditions = Preconditions (precondUID: "string option")

definition NewUIDPreconditions :: "string \<Rightarrow> preconditions" where
  "NewUIDPreconditions u = Preconditions (Some u)"

record deleteOptions =
  PropagationPolicy :: "string option"
  DeletePreconditions :: "preconditions option"

subsection \<open>Effects\<close>

text \<open>
  Every call to a collaborator is an event; the two mutating calls carry the error they
  returned. Log lines keep their severity and the arguments of their format string.
\<close>

datatype event =
    EvGetClusterNames
  | EvList string
  | EvGet string string string
  | EvRequeueObject string namespace "error option"
  | EvListerList
  | EvListerGet string
  | EvDelete string deleteOptions "error option"

datatype severity = Info | InfoV4 | Warning | Error

datatype message =
    NoClusters
  | ListSuperFailed error
  | DelegatedUIDDiffers string
  | DeleteFailed string error
  | ListTenantFailed string error
  | CheckCluster string
  | RequeueFailed string string error
  | GetSuperFailed string error

record state =
  trace :: "event list"
  logs :: "(severity \<times> message) list"
  CheckerRemedyStats :: "string \<Rightarrow> nat"
  scanDurations :: "string list"

definition emit :: "event \<Rightarrow> state \<Rightarrow> state" where
  "emit ev st = st\<lparr>trace := trace st @ [ev]\<rparr>"

definition klog :: "severity \<Rightarrow> message \<Rightarrow> state \<Rightarrow> state" where
  "klog sev m st = st\<lparr>logs := logs st @ [(sev, m)]\<rparr>"

definition Inc :: "string \<Rightarrow> state \<Rightarrow> state" where
  "Inc label st = st\<lparr>CheckerRemedyStats := (CheckerRemedyStats st)(label := CheckerRemedyStats st label + 1)\<rparr>"

definition RecordCheckerScanDuration :: "string \<Rightarrow> state \<Rightarrow> state" where
  "RecordCheckerScanDuration label st = st\<lparr>scanDurations := scanDurations st @ [label]\<rparr>"

text \<open>A function of the checker either returns or panics; a panic that nothing recovers
  ends the process.\<close>

datatype outcome = Returned | Panicked

subsection \<open>The controller and its collaborators\<close>

text \<open>
  Reads answer from the caches as they are during the cycle, so they are functions of
  their arguments. A Go call returning \<^verbatim>\<open>(value, error)\<close> is a pair, the value \<open>None\<close>
  when it is \<^verbatim>\<open>nil\<close>. The two mutating calls get the trace so far, so their answer may
  depend on everything that happened before.
\<close>

record controller =
  GetClusterNames :: "string list"
  mcList :: "string \<Rightarrow> namespace list option \<times> error option"
  mcGet :: "string \<Rightarrow> string \<Rightarrow> string \<Rightarrow> namespace option \<times> error option"
  RequeueObject :: "event list \<Rightarrow> string \<Rightarrow> namespace \<Rightarrow> error option"
  nsListerList :: "namespace list \<times> error option"
  nsListerGet :: "string \<Rightarrow> namespace option \<times> error option"
  namespacesDelete :: "event list \<Rightarrow> string \<Rightarrow> deleteOptions \<Rightarrow> error option"
  GetVirtualOwner :: "namespace \<Rightarrow> string \<times> string"
  ToSuperMasterNamespace :: "string \<Rightarrow> string \<Rightarrow> string"
  LabelUID :: string
  DefaultDeletionPolicy :: string

subsection \<open>checkNamespacesOfTenantCluster\<close>

text \<open>Lines 125 to 129: requeue the tenant namespace, count it when the call succeeds.\<close>

definition requeueVNamespace :: "controller \<Rightarrow> string \<Rightarrow> namespace \<Rightarrow> state \<Rightarrow> state" where
  "requeueVNamespace c clusterName vNamespace st =
     (let err = RequeueObject c (trace st) clusterName vNamespace;
          st1 = emit (EvRequeueObject clusterName vNamespace err) st
      in case err of
           Some e \<Rightarrow> klog Error (RequeueFailed (Name vNamespace) clusterName e) st1
         | None \<Rightarrow> Inc ''numRequeuedTenantNamespaces'' st1)"

text \<open>
  Lines 121 to 139, the body of the loop over the tenant's namespaces. After an error
  that is not a not-found the body goes on to line 137 and reads the annotations of
  \<^verbatim>\<open>pNamespace\<close>: a nil pointer there is a panic.
\<close>

definition checkVNamespace :: "controller \<Rightarrow> string \<Rightarrow> namespace \<Rightarrow> state \<Rightarrow> outcome \<times> state" where
  "checkVNamespace c clusterName vNamespace st =
     (let targetNamespace = ToSuperMasterNamespace c clusterName (Name vNamespace);
          (pNamespace, err) = nsListerGet c targetNamespace;
          st1 = emit (EvListerGet targetNamespace) st
      in if IsNotFound err then (Returned, requeueVNamespace c clusterName vNamespace st1)
         else
           let st2 = (case err of
                        Some e \<Rightarrow> klog Error (GetSuperFailed targetNamespace e) st1
                      | None \<Rightarrow> st1)
           in case pNamespace of
                None \<Rightarrow> (Panicked, st2)
              | Some p \<Rightarrow>
                  (Returned,
                   if annotation p (LabelUID c) \<noteq> UID vNamespace
                   then klog Error (DelegatedUIDDiffers targetNamespace) st2
                   else st2))"

fun checkVNamespaces :: "controller \<Rightarrow> string \<Rightarrow> namespace list \<Rightarrow> state \<Rightarrow> outcome \<times> state" where
  "checkVNamespaces c clusterName [] st = (Returned, st)"
| "checkVNamespaces c clusterName (v # vs) st =
     (case checkVNamespace c clusterName v st of
        (Panicked, st') \<Rightarrow> (Panicked, st')
      | (Returned, st') \<Rightarrow> checkVNamespaces c clusterName vs st')"

text \<open>Lines 112 to 141. The list object is a pointer: \<^verbatim>\<open>nil\<close> without an error is a
  panic at line 120.\<close>

definition checkNamespacesOfTenantCluster :: "controller \<Rightarrow> string \<Rightarrow> state \<Rightarrow> outcome \<times> state" where
  "checkNamespacesOfTenantCluster c clusterName st =
     (let (listObj, err) = mcList c clusterName;
          st1 = emit (EvList clusterName) st
      in case err of
           Some e \<Rightarrow> (Returned, klog Error (ListTenantFailed clusterName e) st1)
         | None \<Rightarrow>
             (let st2 = klog InfoV4 (CheckCluster clusterName) st1
              in case listObj of
                   None \<Rightarrow> (Panicked, st2)
                 | Some items \<Rightarrow> checkVNamespaces c clusterName items st2))"

subsection \<open>checkNamespaces\<close>

text \<open>Lines 97 to 106: the conditional delete of a super master namespace.\<close>

definition deletePNamespace :: "controller \<Rightarrow> namespace \<Rightarrow> state \<Rightarrow> state" where
  "deletePNamespace c pNamespace st =
     (let opts = \<lparr>PropagationPolicy = Some (DefaultDeletionPolicy c),
                  DeletePreconditions = Some (NewUIDPreconditions (UID pNamespace))\<rparr>;
          err = namespacesDelete c (trace st) (Name pNamespace) opts;
          st1 = emit (EvDelete (Name pNamespace) opts err) st
      in case err of
           Some e \<Rightarrow> klog Error (DeleteFailed (Name pNamespace) e) st1
         | None \<Rightarrow> Inc ''numDeletedOrphanSuperMasterNamespaces'' st1)"

text \<open>
  Lines 80 to 107, the body of the loop over the super master namespaces: the flag
  \<^verbatim>\<open>shouldDelete\<close> is set by a not-found (line 86) or by a UID that differs (line 91),
  and the delete follows when it is set. With a nil error the object is cast and its UID
  read, which panics on \<^verbatim>\<open>nil\<close>.
\<close>

definition checkPNamespace :: "controller \<Rightarrow> namespace \<Rightarrow> state \<Rightarrow> outcome \<times> state" where
  "checkPNamespace c pNamespace st =
     (let (clusterName, vNamespace) = GetVirtualOwner c pNamespace
      in if length clusterName = 0 \<or> length vNamespace = 0 then (Returned, st)
         else
           let (vNamespaceObj, err) = mcGet c clusterName [] vNamespace;
               st1 = emit (EvGet clusterName [] vNamespace) st;
               shouldDelete = IsNotFound err;
               checked =
                 (if err = None then
                    (case vNamespaceObj of
                       None \<Rightarrow> None
                     | Some vNs \<Rightarrow>
                         if annotation pNamespace (LabelUID c) \<noteq> UID vNs
                         then Some (True,
                                klog Warning (DelegatedUIDDiffers (Name pNamespace)) st1)
                         else Some (shouldDelete, st1))
                  else Some (shouldDelete, st1))
           in case checked of
                None \<Rightarrow> (Panicked, st1)
              | Some (shouldDelete, st2) \<Rightarrow>
                  (Returned,
                   if shouldDelete then deletePNamespace c pNamespace st2 else st2))"

fun checkPNamespaces :: "controller \<Rightarrow> namespace list \<Rightarrow> state \<Rightarrow> outcome \<times> state" where
  "checkPNamespaces c [] st = (Returned, st)"
| "checkPNamespaces c (p # ps) st =
     (case checkPNamespace c p st of
        (Panicked, st') \<Rightarrow> (Panicked, st')
      | (Returned, st') \<Rightarrow> checkPNamespaces c ps st')"

text \<open>
  Lines 64 to 71 start one goroutine for each tenant cluster and wait for all of them.
  The embedding runs them one after the other, in the order of the cluster names. A
  panic in a goroutine ends the process, so no later scan is run.
\<close>

fun checkTenantClusters :: "controller \<Rightarrow> string list \<Rightarrow> state \<Rightarrow> outcome \<times> state" where
  "checkTenantClusters c [] st = (Returned, st)"
| "checkTenantClusters c (clusterName # rest) st =
     (case checkNamespacesOfTenantCluster c clusterName st of
        (Panicked, st') \<Rightarrow> (Panicked, st')
      | (Returned, st') \<Rightarrow> checkTenantClusters c rest st')"

text \<open>
  Lines 55 to 109. The scan duration is recorded by a \<^verbatim>\<open>defer\<close> placed after the early
  return: it runs when the function returns later or panics itself, and not when a
  tenant goroutine has ended the process.
\<close>

definition checkNamespaces :: "controller \<Rightarrow> state \<Rightarrow> outcome \<times> state" where
  "checkNamespaces c st =
     (let clusterNames = GetClusterNames c;
          st0 = emit EvGetClusterNames st
      in if length clusterNames = 0 then (Returned, klog Info NoClusters st0)
         else
           case checkTenantClusters c clusterNames st0 of
             (Panicked, st1) \<Rightarrow> (Panicked, st1)
           | (Returned, st1) \<Rightarrow>
               (let (pNamespaces, err) = nsListerList c;
                    st2 = emit EvListerList st1
                in case err of
                     Some e \<Rightarrow>
                       (Returned,
                        RecordCheckerScanDuration ''namespace'' (klog Error (ListSuperFailed e) st2))
                   | None \<Rightarrow>
                       (case checkPNamespaces c pNamespaces st2 of
                          (oc, st3) \<Rightarrow> (oc, RecordCheckerScanDuration ''namespace'' st3))))"

subsection \<open>StartPeriodChecker\<close>

text \<open>
  \<^verbatim>\<open>cache.WaitForCacheSync\<close> answers whether the caches synced before the stop channel
  closed, and \<^verbatim>\<open>wait.Until\<close> calls its function once per period until the stop channel
  closes. A run is described by that answer and by the number of periods that start
  before the stop.
\<close>

record run =
  WaitForCacheSync :: bool
  periodsBeforeStop :: nat

fun Until :: "(state \<Rightarrow> outcome \<times> state) \<Rightarrow> nat \<Rightarrow> state \<Rightarrow> outcome \<times> state" where
  "Until f 0 st = (Returned, st)"
| "Until f (Suc n) st =
     (case f st of
        (Panicked, st') \<Rightarrow> (Panicked, st')
      | (Returned, st') \<Rightarrow> Until f n st')"

datatype startResult = ReturnedNil | ReturnedError string | Crashed

text \<open>Lines 39 to 51. \<^verbatim>\<open>HandleCrash\<close> logs a panic and panics again.\<close>

definition StartPeriodChecker :: "controller \<Rightarrow> run \<Rightarrow> state \<Rightarrow> startResult \<times> state" where
  "StartPeriodChecker c r st =
     (if \<not> WaitForCacheSync r
      then (ReturnedError ''failed to wait for caches to sync before starting Namespace checker'', st)
      else case Until (checkNamespaces c) (periodsBeforeStop r) st of
             (Panicked, st') \<Rightarrow> (Crashed, st')
           | (Returned, st') \<Rightarrow> (ReturnedNil, st'))"

subsection \<open>What a cycle emits\<close>

text \<open>
  Two readings of the trace and the log used by the theorems: the number of deletes
  issued for a name, and the remediation decisions (a delete, a requeue, a reported UID
  mismatch), without the answers of the collaborators.
\<close>

fun isDelete :: "event \<Rightarrow> bool" where
  "isDelete (EvDelete _ _ _) = True"
| "isDelete _ = False"

fun isDeleteOf :: "string \<Rightarrow> event \<Rightarrow> bool" where
  "isDeleteOf n (EvDelete m _ _) = (m = n)"
| "isDeleteOf n _ = False"

definition deleteCount :: "string \<Rightarrow> event list \<Rightarrow> nat" where
  "deleteCount n es = length (filter (isDeleteOf n) es)"

datatype decision =
    DeletePhysical string deleteOptions
  | RequeueVirtual string namespace
  | ReportMismatch string

fun eventDecision :: "event \<Rightarrow> decision list" where
  "eventDecision (EvDelete n opts _) = [DeletePhysical n opts]"
| "eventDecision (EvRequeueObject clusterName v _) = [RequeueVirtual clusterName v]"
| "eventDecision _ = []"

fun logDecision :: "severity \<times> message \<Rightarrow> decision list" where
  "logDecision (_, DelegatedUIDDiffers n) = [ReportMismatch n]"
| "logDecision _ = []"

definition decisions :: "state \<Rightarrow> decision multiset" where
  "decisions st =
     mset (concat (map eventDecision (trace st))) + mset (concat (map logDecision (logs st)))"

subsection \<open>Concrete controllers\<close>

text \<open>
  A small installation for the examples: the owner of a super master namespace is read
  from two annotations, the super master name of a tenant namespace is the cluster name,
  a dash and the namespace name. In \<open>ctl0\<close> the tenant \<open>t1\<close> is registered and every
  lookup answers not-found; the other controllers change single collaborators.
\<close>

definition owner0 :: "namespace \<Rightarrow> string \<times> string" where
  "owner0 p = (annotation p ''cluster'', annotation p ''namespace'')"

definition ctl0 :: controller where
  "ctl0 = \<lparr>GetClusterNames = [''t1''],
     mcList = (\<lambda>_. (Some [], None)),
     mcGet = (\<lambda>_ _ _. (None, Some NotFound)),
     RequeueObject = (\<lambda>_ _ _. None),
     nsListerList = ([], None),
     nsListerGet = (\<lambda>_. (None, Some NotFound)),
     namespacesDelete = (\<lambda>_ _ _. None),
     GetVirtualOwner = owner0,
     ToSuperMasterNamespace = (\<lambda>clusterName n. clusterName @ ''-'' @ n),
     LabelUID = ''uid'',
     DefaultDeletionPolicy = ''Background''\<rparr>"

definition st0 :: state where
  "st0 = \<lparr>trace = [], logs = [], CheckerRemedyStats = (\<lambda>_. 0), scanDurations = []\<rparr>"

definition pB :: namespace where
  "pB = \<lparr>Name = ''t1-ns1'', UID = ''p1'',
     Annotations = [''cluster'' \<mapsto> ''t1'', ''namespace'' \<mapsto> ''ns1'', ''uid'' \<mapsto> ''u1'']\<rparr>"

definition pNoUID :: namespace where
  "pNoUID = \<lparr>Name = ''t1-ns1'', UID = ''p1'',
     Annotations = [''cluster'' \<mapsto> ''t1'', ''namespace'' \<mapsto> ''ns1'']\<rparr>"

definition vA :: namespace where
  "vA = \<lparr>Name = ''ns1'', UID = ''u1'', Annotations = Map.empty\<rparr>"

definition vA2 :: namespace where
  "vA2 = \<lparr>Name = ''ns2'', UID = ''u3'', Annotations = Map.empty\<rparr>"

definition vC :: namespace where
  "vC = \<lparr>Name = ''ns1'', UID = ''u2'', Annotations = Map.empty\<rparr>"

definition ctlEmpty :: controller where
  "ctlEmpty = ctl0\<lparr>GetClusterNames := []\<rparr>"

definition ctlOrphan :: controller where
  "ctlOrphan = ctl0\<lparr>nsListerList := ([pB], None)\<rparr>"

definition ctlTenantTransient :: controller where
  "ctlTenantTransient =
     ctl0\<lparr>mcList := (\<lambda>_. (Some [vA, vA2], None)),
          nsListerGet := (\<lambda>_. (None, Some (OtherError ''timeout'')))\<rparr>"

definition ctlOrphanTransient :: controller where
  "ctlOrphanTransient =
     ctl0\<lparr>mcGet := (\<lambda>_ _ _. (None, Some (OtherError ''timeout''))),
          nsListerList := ([pB], None)\<rparr>"

definition ctlMismatch :: controller where
  "ctlMismatch =
     ctl0\<lparr>mcList := (\<lambda>_. (Some [vC], None)),
          mcGet := (\<lambda>_ _ _. (Some vC, None)),
          nsListerList := ([pB], None),
          nsListerGet := (\<lambda>_. (Some pB, None))\<rparr>"

definition ctlMissing :: controller where
  "ctlMissing = ctl0\<lparr>mcList := (\<lambda>_. (Some [vA], None))\<rparr>"

definition ctlNoUID :: controller where
  "ctlNoUID =
     ctl0\<lparr>mcGet := (\<lambda>_ _ _. (Some vC, None)),
          nsListerList := ([pNoUID], None)\<rparr>"

definition runStopped :: run where
  "runStopped = \<lparr>WaitForCacheSync = False, periodsBeforeStop = 2\<rparr>"

definition runSynced :: run where
  "runSynced = \<lparr>WaitForCacheSync = True, periodsBeforeStop = 2\<rparr>"

section \<open>Properties\<close>

subsection \<open>Auxiliary facts\<close>

lemmas effect_defs = emit_def klog_def Inc_def RecordCheckerScanDuration_def

lemma IsNotFound_iff: "IsNotFound e \<longleftrightarrow> e = Some NotFound"
  by (cases e rule: IsNotFound.cases) simp_all

lemma checkPNamespaces_append:
  "checkPNamespaces c (pre @ post) st =
     (case checkPNamespaces c pre st of
        (Panicked, s) \<Rightarrow> (Panicked, s)
      | (Returned, s) \<Rightarrow> checkPNamespaces c post s)"
  by (induction pre arbitrary: st) (auto split: prod.splits outcome.splits)

lemma checkVNamespaces_append:
  "checkVNamespaces c clusterName (pre @ post) st =
     (case checkVNamespaces c clusterName pre st of
        (Panicked, s) \<Rightarrow> (Panicked, s)
      | (Returned, s) \<Rightarrow> checkVNamespaces c clusterName post s)"
  by (induction pre arbitrary: st) (auto split: prod.splits outcome.splits)

text \<open>The body of the orphan loop with the flag \<^verbatim>\<open>shouldDelete\<close> resolved.\<close>

lemma checkPNamespace_unfold:
  "checkPNamespace c p st =
     (let (clusterName, vNamespace) = GetVirtualOwner c p
      in if clusterName = [] \<or> vNamespace = [] then (Returned, st)
         else
           let (vNamespaceObj, err) = mcGet c clusterName [] vNamespace;
               st1 = emit (EvGet clusterName [] vNamespace) st
           in if err = None then
                (case vNamespaceObj of
                   None \<Rightarrow> (Panicked, st1)
                 | Some vNs \<Rightarrow>
                     if annotation p (LabelUID c) \<noteq> UID vNs
                     then (Returned,
                           deletePNamespace c p (klog Warning (DelegatedUIDDiffers (Name p)) st1))
                     else (Returned, st1))
              else if IsNotFound err then (Returned, deletePNamespace c p st1)
              else (Returned, st1))"
  by (simp add: checkPNamespace_def Let_def split: prod.splits option.splits)

text \<open>Both loop bodies in the cases the theorems are about.\<close>

lemma checkPNamespace_not_found:
  assumes "GetVirtualOwner c p = (clusterName, vNamespace)"
    and "clusterName \<noteq> []" and "vNamespace \<noteq> []"
    and "snd (mcGet c clusterName [] vNamespace) = Some NotFound"
  shows "checkPNamespace c p st =
     (Returned, deletePNamespace c p (emit (EvGet clusterName [] vNamespace) st))"
  using assms by (cases "mcGet c clusterName [] vNamespace") (simp add: checkPNamespace_unfold Let_def)

lemma checkPNamespace_mismatch:
  assumes "GetVirtualOwner c p = (clusterName, vNamespace)"
    and "clusterName \<noteq> []" and "vNamespace \<noteq> []"
    and "mcGet c clusterName [] vNamespace = (Some vNs, None)"
    and "annotation p (LabelUID c) \<noteq> UID vNs"
  shows "checkPNamespace c p st =
     (Returned, deletePNamespace c p
        (klog Warning (DelegatedUIDDiffers (Name p)) (emit (EvGet clusterName [] vNamespace) st)))"
  using assms by (simp add: checkPNamespace_unfold Let_def)

lemma checkPNamespace_other_error:
  assumes "GetVirtualOwner c p = (clusterName, vNamespace)"
    and "clusterName \<noteq> []" and "vNamespace \<noteq> []"
    and "snd (mcGet c clusterName [] vNamespace) = Some e" and "e \<noteq> NotFound"
  shows "checkPNamespace c p st = (Returned, emit (EvGet clusterName [] vNamespace) st)"
  using assms
  by (cases "mcGet c clusterName [] vNamespace") (simp add: checkPNamespace_unfold Let_def IsNotFound_iff)

lemma checkVNamespace_not_found:
  assumes "snd (nsListerGet c (ToSuperMasterNamespace c clusterName (Name v))) = Some NotFound"
  shows "checkVNamespace c clusterName v st =
     (Returned, requeueVNamespace c clusterName v
        (emit (EvListerGet (ToSuperMasterNamespace c clusterName (Name v))) st))"
  using assms
  by (cases "nsListerGet c (ToSuperMasterNamespace c clusterName (Name v))")
     (simp add: checkVNamespace_def Let_def)

lemma deletePNamespace_effect:
  "trace (deletePNamespace c p st) =
     trace st @ [EvDelete (Name p)
        \<lparr>PropagationPolicy = Some (DefaultDeletionPolicy c),
         DeletePreconditions = Some (NewUIDPreconditions (UID p))\<rparr>
        (namespacesDelete c (trace st) (Name p)
           \<lparr>PropagationPolicy = Some (DefaultDeletionPolicy c),
            DeletePreconditions = Some (NewUIDPreconditions (UID p))\<rparr>)]"
  by (simp add: deletePNamespace_def effect_defs Let_def split: option.splits)

lemma requeueVNamespace_effect:
  "trace (requeueVNamespace c clusterName v st) =
     trace st @ [EvRequeueObject clusterName v (RequeueObject c (trace st) clusterName v)]"
  by (simp add: requeueVNamespace_def effect_defs Let_def split: option.splits)

text \<open>Every function only appends to the trace, and the tenant scans append no delete.\<close>

lemma checkVNamespace_extends:
  "\<exists>es. trace (snd (checkVNamespace c clusterName v st)) = trace st @ es
        \<and> (\<forall>ev\<in>set es. \<not> isDelete ev)"
  by (cases "nsListerGet c (ToSuperMasterNamespace c clusterName (Name v))")
     (simp add: checkVNamespace_def Let_def requeueVNamespace_effect effect_defs
        split: option.splits)

lemma checkVNamespaces_extends:
  "\<exists>es. trace (snd (checkVNamespaces c clusterName vs st)) = trace st @ es
        \<and> (\<forall>ev\<in>set es. \<not> isDelete ev)"
proof (induction vs arbitrary: st)
  case Nil
  show ?case by simp
next
  case (Cons v vs)
  obtain oc s where step: "checkVNamespace c clusterName v st = (oc, s)"
    by (cases "checkVNamespace c clusterName v st")
  from checkVNamespace_extends [of c clusterName v st] step
  obtain es where es: "trace s = trace st @ es" "\<forall>ev\<in>set es. \<not> isDelete ev" by auto
  show ?case
  proof (cases oc)
    case Panicked
    with step es show ?thesis by simp
  next
    case Returned
    from Cons.IH [of s] obtain es' where
      "trace (snd (checkVNamespaces c clusterName vs s)) = trace s @ es'"
      "\<forall>ev\<in>set es'. \<not> isDelete ev" by auto
    with step es Returned show ?thesis by auto
  qed
qed

lemma checkNamespacesOfTenantCluster_extends:
  "\<exists>es. trace (snd (checkNamespacesOfTenantCluster c clusterName st)) = trace st @ es
        \<and> (\<forall>ev\<in>set es. \<not> isDelete ev)"
proof -
  obtain listObj err where l: "mcList c clusterName = (listObj, err)"
    by (cases "mcList c clusterName")
  show ?thesis
  proof (cases err)
    case (Some e)
    with l show ?thesis by (simp add: checkNamespacesOfTenantCluster_def effect_defs)
  next
    case None
    show ?thesis
    proof (cases listObj)
      case None
      with l \<open>err = None\<close> show ?thesis
        by (simp add: checkNamespacesOfTenantCluster_def effect_defs)
    next
      case (Some items)
      let ?s = "klog InfoV4 (CheckCluster clusterName) (emit (EvList clusterName) st)"
      from checkVNamespaces_extends [of c clusterName items ?s] obtain es where
        "trace (snd (checkVNamespaces c clusterName items ?s)) = trace ?s @ es"
        "\<forall>ev\<in>set es. \<not> isDelete ev" by auto
      with l \<open>err = None\<close> Some show ?thesis
        by (simp add: checkNamespacesOfTenantCluster_def effect_defs)
    qed
  qed
qed

lemma checkTenantClusters_extends:
  "\<exists>es. trace (snd (checkTenantClusters c names st)) = trace st @ es
        \<and> (\<forall>ev\<in>set es. \<not> isDelete ev)"
proof (induction names arbitrary: st)
  case Nil
  show ?case by simp
next
  case (Cons n names)
  obtain oc s where step: "checkNamespacesOfTenantCluster c n st = (oc, s)"
    by (cases "checkNamespacesOfTenantCluster c n st")
  from checkNamespacesOfTenantCluster_extends [of c n st] step
  obtain es where es: "trace s = trace st @ es" "\<forall>ev\<in>set es. \<not> isDelete ev" by auto
  show ?case
  proof (cases oc)
    case Panicked
    with step es show ?thesis by simp
  next
    case Returned
    from Cons.IH [of s] obtain es' where
      "trace (snd (checkTenantClusters c names s)) = trace s @ es'"
      "\<forall>ev\<in>set es'. \<not> isDelete ev" by auto
    with step es Returned show ?thesis by auto
  qed
qed

text \<open>The orphan scan appends deletes only for the namespaces it is given, each with
  the options built at lines 98 to 101.\<close>

lemma checkPNamespace_extends:
  "\<exists>es. trace (snd (checkPNamespace c p st)) = trace st @ es
        \<and> (\<forall>ev\<in>set es. isDelete ev \<longrightarrow>
             (\<exists>r. ev = EvDelete (Name p)
                    \<lparr>PropagationPolicy = Some (DefaultDeletionPolicy c),
                     DeletePreconditions = Some (NewUIDPreconditions (UID p))\<rparr> r))"
proof -
  obtain clusterName vNamespace where o: "GetVirtualOwner c p = (clusterName, vNamespace)"
    by (cases "GetVirtualOwner c p")
  obtain obj err where g: "mcGet c clusterName [] vNamespace = (obj, err)"
    by (cases "mcGet c clusterName [] vNamespace")
  show ?thesis
    using o g
    by (simp add: checkPNamespace_unfold Let_def deletePNamespace_effect effect_defs
          split: option.splits)
qed

lemma checkPNamespaces_extends:
  "\<exists>es. trace (snd (checkPNamespaces c ps st)) = trace st @ es
        \<and> (\<forall>ev\<in>set es. isDelete ev \<longrightarrow>
             (\<exists>p\<in>set ps. \<exists>r. ev = EvDelete (Name p)
                    \<lparr>PropagationPolicy = Some (DefaultDeletionPolicy c),
                     DeletePreconditions = Some (NewUIDPreconditions (UID p))\<rparr> r))"
proof (induction ps arbitrary: st)
  case Nil
  show ?case by simp
next
  case (Cons p ps)
  obtain oc s where step: "checkPNamespace c p st = (oc, s)"
    by (cases "checkPNamespace c p st")
  from checkPNamespace_extends [of c p st] step
  obtain es where es: "trace s = trace st @ es"
    "\<forall>ev\<in>set es. isDelete ev \<longrightarrow>
       (\<exists>r. ev = EvDelete (Name p)
              \<lparr>PropagationPolicy = Some (DefaultDeletionPolicy c),
               DeletePreconditions = Some (NewUIDPreconditions (UID p))\<rparr> r)" by auto
  show ?case
  proof (cases oc)
    case Panicked
    with step es show ?thesis by simp
  next
    case Returned
    from Cons.IH [of s] obtain es' where es':
      "trace (snd (checkPNamespaces c ps s)) = trace s @ es'"
      "\<forall>ev\<in>set es'. isDelete ev \<longrightarrow>
         (\<exists>p\<in>set ps. \<exists>r. ev = EvDelete (Name p)
              \<lparr>PropagationPolicy = Some (DefaultDeletionPolicy c),
               DeletePreconditions = Some (NewUIDPreconditions (UID p))\<rparr> r)" by auto
    have "trace (snd (checkPNamespaces c (p # ps) st)) = trace st @ (es @ es')"
      using step Returned es(1) es'(1) by simp
    moreover have "\<forall>ev\<in>set (es @ es'). isDelete ev \<longrightarrow>
         (\<exists>q\<in>set (p # ps). \<exists>r. ev = EvDelete (Name q)
              \<lparr>PropagationPolicy = Some (DefaultDeletionPolicy c),
               DeletePreconditions = Some (NewUIDPreconditions (UID q))\<rparr> r)"
      using es(2) es'(2) by auto
    ultimately show ?thesis by blast
  qed
qed

lemma checkNamespaces_extends:
  "\<exists>es. trace (snd (checkNamespaces c st)) = trace st @ EvGetClusterNames # es
        \<and> (\<forall>ev\<in>set es. isDelete ev \<longrightarrow>
             (\<exists>p\<in>set (fst (nsListerList c)). \<exists>r. ev = EvDelete (Name p)
                    \<lparr>PropagationPolicy = Some (DefaultDeletionPolicy c),
                     DeletePreconditions = Some (NewUIDPreconditions (UID p))\<rparr> r))"
proof (cases "GetClusterNames c = []")
  case True
  then show ?thesis by (simp add: checkNamespaces_def effect_defs)
next
  case False
  let ?s0 = "emit EvGetClusterNames st"
  obtain oc s1 where t: "checkTenantClusters c (GetClusterNames c) ?s0 = (oc, s1)"
    by (cases "checkTenantClusters c (GetClusterNames c) ?s0")
  from checkTenantClusters_extends [of c "GetClusterNames c" ?s0] t
  obtain es where es: "trace s1 = trace ?s0 @ es" "\<forall>ev\<in>set es. \<not> isDelete ev" by auto
  show ?thesis
  proof (cases oc)
    case Panicked
    with False t es show ?thesis by (simp add: checkNamespaces_def effect_defs)
  next
    case Returned
    obtain ps err where l: "nsListerList c = (ps, err)" by (cases "nsListerList c")
    show ?thesis
    proof (cases err)
      case (Some e)
      with False t es Returned l show ?thesis
        by (simp add: checkNamespaces_def effect_defs)
    next
      case None
      let ?s2 = "emit EvListerList s1"
      obtain oc3 s3 where o: "checkPNamespaces c ps ?s2 = (oc3, s3)"
        by (cases "checkPNamespaces c ps ?s2")
      from checkPNamespaces_extends [of c ps ?s2] o obtain es' where es':
        "trace s3 = trace ?s2 @ es'"
        "\<forall>ev\<in>set es'. isDelete ev \<longrightarrow>
           (\<exists>p\<in>set ps. \<exists>r. ev = EvDelete (Name p)
                \<lparr>PropagationPolicy = Some (DefaultDeletionPolicy c),
                 DeletePreconditions = Some (NewUIDPreconditions (UID p))\<rparr> r)" by auto
      have "trace (snd (checkNamespaces c st)) =
          trace st @ EvGetClusterNames # (es @ EvListerList # es')"
        using False t Returned l None o es(1) es'(1)
        by (simp add: checkNamespaces_def effect_defs)
      moreover have "\<forall>ev\<in>set (es @ EvListerList # es'). isDelete ev \<longrightarrow>
           (\<exists>p\<in>set (fst (nsListerList c)). \<exists>r. ev = EvDelete (Name p)
                \<lparr>PropagationPolicy = Some (DefaultDeletionPolicy c),
                 DeletePreconditions = Some (NewUIDPreconditions (UID p))\<rparr> r)"
        using es(2) es'(2) l by auto
      ultimately show ?thesis by blast
    qed
  qed
qed

text \<open>Counting the deletes issued for one name.\<close>

lemma deleteCount_append: "deleteCount n (xs @ ys) = deleteCount n xs + deleteCount n ys"
  by (simp add: deleteCount_def)

lemma isDeleteOf_isDelete: "isDeleteOf n ev \<Longrightarrow> isDelete ev"
  by (cases ev) simp_all

lemma deleteCount_none: "\<forall>ev\<in>set es. \<not> isDeleteOf n ev \<Longrightarrow> deleteCount n es = 0"
  by (simp add: deleteCount_def)

lemma checkTenantClusters_deleteCount:
  "deleteCount n (trace (snd (checkTenantClusters c names st))) = deleteCount n (trace st)"
proof -
  from checkTenantClusters_extends [of c names st] obtain es where
    es: "trace (snd (checkTenantClusters c names st)) = trace st @ es"
      "\<forall>ev\<in>set es. \<not> isDelete ev" by auto
  from es(2) have "\<forall>ev\<in>set es. \<not> isDeleteOf n ev" by (auto dest: isDeleteOf_isDelete)
  with es(1) show ?thesis by (simp add: deleteCount_append deleteCount_none)
qed

lemma checkPNamespace_deleteCount_other:
  assumes "Name p \<noteq> n"
  shows "deleteCount n (trace (snd (checkPNamespace c p st))) = deleteCount n (trace st)"
proof -
  from checkPNamespace_extends [of c p st] obtain es where
    es: "trace (snd (checkPNamespace c p st)) = trace st @ es"
      "\<forall>ev\<in>set es. isDelete ev \<longrightarrow>
         (\<exists>r. ev = EvDelete (Name p)
                \<lparr>PropagationPolicy = Some (DefaultDeletionPolicy c),
                 DeletePreconditions = Some (NewUIDPreconditions (UID p))\<rparr> r)" by auto
  have "\<forall>ev\<in>set es. \<not> isDeleteOf n ev"
  proof
    fix ev assume "ev \<in> set es"
    show "\<not> isDeleteOf n ev"
    proof
      assume d: "isDeleteOf n ev"
      with es(2) \<open>ev \<in> set es\<close> obtain r where "ev = EvDelete (Name p)
                \<lparr>PropagationPolicy = Some (DefaultDeletionPolicy c),
                 DeletePreconditions = Some (NewUIDPreconditions (UID p))\<rparr> r"
        by (auto dest: isDeleteOf_isDelete)
      with d assms show False by simp
    qed
  qed
  with es(1) show ?thesis by (simp add: deleteCount_append deleteCount_none)
qed

lemma checkPNamespaces_deleteCount_other:
  assumes "n \<notin> Name ` set ps"
  shows "deleteCount n (trace (snd (checkPNamespaces c ps st))) = deleteCount n (trace st)"
  using assms
proof (induction ps arbitrary: st)
  case Nil
  show ?case by simp
next
  case (Cons p ps)
  obtain oc s where step: "checkPNamespace c p st = (oc, s)"
    by (cases "checkPNamespace c p st")
  from Cons.prems have ne: "Name p \<noteq> n" and rest: "n \<notin> Name ` set ps" by auto
  from checkPNamespace_deleteCount_other [OF ne, of c st] step
  have one: "deleteCount n (trace s) = deleteCount n (trace st)" by simp
  show ?case
  proof (cases oc)
    case Panicked
    with step one show ?thesis by simp
  next
    case Returned
    with step one Cons.IH [OF rest, of s] show ?thesis by simp
  qed
qed

lemma deletePNamespace_deleteCount:
  "deleteCount (Name p) (trace (deletePNamespace c p st)) = deleteCount (Name p) (trace st) + 1"
  by (simp add: deletePNamespace_effect deleteCount_def)

text \<open>The decisions of a function do not depend on the state it starts from, only on
  what the collaborators answer to reads.\<close>

lemma decisions_emit [simp]: "decisions (emit ev st) = decisions st + mset (eventDecision ev)"
  by (simp add: decisions_def emit_def)

lemma decisions_klog [simp]: "decisions (klog sev m st) = decisions st + mset (logDecision (sev, m))"
  by (simp add: decisions_def klog_def)

lemma decisions_Inc [simp]: "decisions (Inc l st) = decisions st"
  by (simp add: decisions_def Inc_def)

lemma decisions_RecordCheckerScanDuration [simp]:
  "decisions (RecordCheckerScanDuration l st) = decisions st"
  by (simp add: decisions_def RecordCheckerScanDuration_def)

lemma decisions_requeueVNamespace [simp]:
  "decisions (requeueVNamespace c clusterName v st) = decisions st + {#RequeueVirtual clusterName v#}"
  by (simp add: requeueVNamespace_def Let_def split: option.splits)

lemma decisions_deletePNamespace [simp]:
  "decisions (deletePNamespace c p st) =
     decisions st + {#DeletePhysical (Name p)
        \<lparr>PropagationPolicy = Some (DefaultDeletionPolicy c),
         DeletePreconditions = Some (NewUIDPreconditions (UID p))\<rparr>#}"
  by (simp add: deletePNamespace_def Let_def split: option.splits)

lemma decisions_st0 [simp]: "decisions st0 = {#}"
  by (simp add: decisions_def st0_def)

lemma checkVNamespace_steady:
  "\<exists>oc D. \<forall>st. fst (checkVNamespace c clusterName v st) = oc
        \<and> decisions (snd (checkVNamespace c clusterName v st)) = decisions st + D"
proof -
  have "\<forall>st. fst (checkVNamespace c clusterName v st) = fst (checkVNamespace c clusterName v st0)
        \<and> decisions (snd (checkVNamespace c clusterName v st)) =
            decisions st + decisions (snd (checkVNamespace c clusterName v st0))"
    by (cases "nsListerGet c (ToSuperMasterNamespace c clusterName (Name v))")
       (simp add: checkVNamespace_def Let_def split: option.splits)
  then show ?thesis by blast
qed

lemma checkPNamespace_steady:
  "\<exists>oc D. \<forall>st. fst (checkPNamespace c p st) = oc
        \<and> decisions (snd (checkPNamespace c p st)) = decisions st + D"
proof -
  obtain clusterName vNamespace where o: "GetVirtualOwner c p = (clusterName, vNamespace)"
    by (cases "GetVirtualOwner c p")
  obtain obj err where g: "mcGet c clusterName [] vNamespace = (obj, err)"
    by (cases "mcGet c clusterName [] vNamespace")
  have "\<forall>st. fst (checkPNamespace c p st) = fst (checkPNamespace c p st0)
        \<and> decisions (snd (checkPNamespace c p st)) =
            decisions st + decisions (snd (checkPNamespace c p st0))"
    using o g by (simp add: checkPNamespace_unfold Let_def split: option.splits)
  then show ?thesis by blast
qed

text \<open>A loop of steady steps that stops at the first panic is steady.\<close>

lemma steady_seq:
  assumes f: "\<forall>st. fst (f st) = oc1 \<and> decisions (snd (f st)) = decisions st + D1"
    and g: "\<forall>st. fst (g st) = oc2 \<and> decisions (snd (g st)) = decisions st + D2"
  shows "\<exists>oc D. \<forall>st.
      fst (case f st of (Panicked, s) \<Rightarrow> (Panicked, s) | (Returned, s) \<Rightarrow> g s) = oc
    \<and> decisions (snd (case f st of (Panicked, s) \<Rightarrow> (Panicked, s) | (Returned, s) \<Rightarrow> g s))
        = decisions st + D"
proof (cases oc1)
  case Panicked
  have "\<forall>st. fst (case f st of (Panicked, s) \<Rightarrow> (Panicked, s) | (Returned, s) \<Rightarrow> g s) = Panicked
    \<and> decisions (snd (case f st of (Panicked, s) \<Rightarrow> (Panicked, s) | (Returned, s) \<Rightarrow> g s))
        = decisions st + D1"
  proof
    fix st
    obtain o' s where e: "f st = (o', s)" by (cases "f st")
    with f Panicked have "o' = Panicked" "decisions s = decisions st + D1"
      by (metis fst_conv, metis snd_conv)
    with e show "fst (case f st of (Panicked, s) \<Rightarrow> (Panicked, s) | (Returned, s) \<Rightarrow> g s) = Panicked
    \<and> decisions (snd (case f st of (Panicked, s) \<Rightarrow> (Panicked, s) | (Returned, s) \<Rightarrow> g s))
        = decisions st + D1" by simp
  qed
  then show ?thesis by blast
next
  case Returned
  have "\<forall>st. fst (case f st of (Panicked, s) \<Rightarrow> (Panicked, s) | (Returned, s) \<Rightarrow> g s) = oc2
    \<and> decisions (snd (case f st of (Panicked, s) \<Rightarrow> (Panicked, s) | (Returned, s) \<Rightarrow> g s))
        = decisions st + (D1 + D2)"
  proof
    fix st
    obtain o' s where e: "f st = (o', s)" by (cases "f st")
    with f Returned have "o' = Returned" "decisions s = decisions st + D1"
      by (metis fst_conv, metis snd_conv)
    with e g show "fst (case f st of (Panicked, s) \<Rightarrow> (Panicked, s) | (Returned, s) \<Rightarrow> g s) = oc2
    \<and> decisions (snd (case f st of (Panicked, s) \<Rightarrow> (Panicked, s) | (Returned, s) \<Rightarrow> g s))
        = decisions st + (D1 + D2)" by (simp add: add.assoc)
  qed
  then show ?thesis by blast
qed

lemma checkVNamespaces_steady:
  "\<exists>oc D. \<forall>st. fst (checkVNamespaces c clusterName vs st) = oc
        \<and> decisions (snd (checkVNamespaces c clusterName vs st)) = decisions st + D"
proof (induction vs)
  case Nil
  have "\<forall>st. fst (checkVNamespaces c clusterName [] st) = Returned
        \<and> decisions (snd (checkVNamespaces c clusterName [] st)) = decisions st + {#}" by simp
  then show ?case by blast
next
  case (Cons v vs)
  from checkVNamespace_steady [of c clusterName v] obtain oc1 D1 where
    a: "\<forall>st. fst (checkVNamespace c clusterName v st) = oc1
        \<and> decisions (snd (checkVNamespace c clusterName v st)) = decisions st + D1" by blast
  from Cons.IH obtain oc2 D2 where
    b: "\<forall>st. fst (checkVNamespaces c clusterName vs st) = oc2
        \<and> decisions (snd (checkVNamespaces c clusterName vs st)) = decisions st + D2" by blast
  from steady_seq [OF a b] show ?case by simp
qed

lemma checkPNamespaces_steady:
  "\<exists>oc D. \<forall>st. fst (checkPNamespaces c ps st) = oc
        \<and> decisions (snd (checkPNamespaces c ps st)) = decisions st + D"
proof (induction ps)
  case Nil
  have "\<forall>st. fst (checkPNamespaces c [] st) = Returned
        \<and> decisions (snd (checkPNamespaces c [] st)) = decisions st + {#}" by simp
  then show ?case by blast
next
  case (Cons p ps)
  from checkPNamespace_steady [of c p] obtain oc1 D1 where
    a: "\<forall>st. fst (checkPNamespace c p st) = oc1
        \<and> decisions (snd (checkPNamespace c p st)) = decisions st + D1" by blast
  from Cons.IH obtain oc2 D2 where
    b: "\<forall>st. fst (checkPNamespaces c ps st) = oc2
        \<and> decisions (snd (checkPNamespaces c ps st)) = decisions st + D2" by blast
  from steady_seq [OF a b] show ?case by simp
qed

lemma checkNamespacesOfTenantCluster_steady:
  "\<exists>oc D. \<forall>st. fst (checkNamespacesOfTenantCluster c clusterName st) = oc
        \<and> decisions (snd (checkNamespacesOfTenantCluster c clusterName st)) = decisions st + D"
proof -
  obtain listObj err where l: "mcList c clusterName = (listObj, err)"
    by (cases "mcList c clusterName")
  show ?thesis
  proof (cases err)
    case (Some e)
    with l show ?thesis by (simp add: checkNamespacesOfTenantCluster_def)
  next
    case None
    show ?thesis
    proof (cases listObj)
      case None
      with l \<open>err = None\<close> show ?thesis by (simp add: checkNamespacesOfTenantCluster_def)
    next
      case (Some items)
      from checkVNamespaces_steady [of c clusterName items] obtain oc D where
        "\<forall>st. fst (checkVNamespaces c clusterName items st) = oc
          \<and> decisions (snd (checkVNamespaces c clusterName items st)) = decisions st + D" by blast
      then have "\<forall>st. fst (checkNamespacesOfTenantCluster c clusterName st) = oc
          \<and> decisions (snd (checkNamespacesOfTenantCluster c clusterName st)) = decisions st + D"
        using l \<open>err = None\<close> Some by (simp add: checkNamespacesOfTenantCluster_def)
      then show ?thesis by blast
    qed
  qed
qed

lemma checkTenantClusters_steady:
  "\<exists>oc D. \<forall>st. fst (checkTenantClusters c names st) = oc
        \<and> decisions (snd (checkTenantClusters c names st)) = decisions st + D"
proof (induction names)
  case Nil
  have "\<forall>st. fst (checkTenantClusters c [] st) = Returned
        \<and> decisions (snd (checkTenantClusters c [] st)) = decisions st + {#}" by simp
  then show ?case by blast
next
  case (Cons n names)
  from checkNamespacesOfTenantCluster_steady [of c n] obtain oc1 D1 where
    a: "\<forall>st. fst (checkNamespacesOfTenantCluster c n st) = oc1
        \<and> decisions (snd (checkNamespacesOfTenantCluster c n st)) = decisions st + D1" by blast
  from Cons.IH obtain oc2 D2 where
    b: "\<forall>st. fst (checkTenantClusters c names st) = oc2
        \<and> decisions (snd (checkTenantClusters c names st)) = decisions st + D2" by blast
  from steady_seq [OF a b] show ?case by simp
qed

lemma checkNamespaces_steady:
  "\<exists>oc D. \<forall>st. fst (checkNamespaces c st) = oc
        \<and> decisions (snd (checkNamespaces c st)) = decisions st + D"
proof (cases "GetClusterNames c = []")
  case True
  then show ?thesis by (simp add: checkNamespaces_def)
next
  case False
  from checkTenantClusters_steady [of c "GetClusterNames c"] obtain oc1 D1 where
    a: "\<forall>st. fst (checkTenantClusters c (GetClusterNames c) st) = oc1
        \<and> decisions (snd (checkTenantClusters c (GetClusterNames c) st)) = decisions st + D1"
    by blast
  obtain ps err where l: "nsListerList c = (ps, err)" by (cases "nsListerList c")
  from checkPNamespaces_steady [of c ps] obtain oc2 D2 where
    b: "\<forall>st. fst (checkPNamespaces c ps st) = oc2
        \<and> decisions (snd (checkPNamespaces c ps st)) = decisions st + D2" by blast
  let ?g = "\<lambda>s1. case err of
       Some e \<Rightarrow> (Returned, RecordCheckerScanDuration ''namespace''
                    (klog Error (ListSuperFailed e) (emit EvListerList s1)))
     | None \<Rightarrow> (case checkPNamespaces c ps (emit EvListerList s1) of
                  (oc, st3) \<Rightarrow> (oc, RecordCheckerScanDuration ''namespace'' st3))"
  have g: "\<forall>st. fst (?g st) = (case err of Some e \<Rightarrow> Returned | None \<Rightarrow> oc2)
      \<and> decisions (snd (?g st)) = decisions st + (case err of Some e \<Rightarrow> {#} | None \<Rightarrow> D2)"
  proof
    fix st
    obtain x1 x2 where e: "checkPNamespaces c ps (emit EvListerList st) = (x1, x2)"
      by (cases "checkPNamespaces c ps (emit EvListerList st)")
    from b have "fst (checkPNamespaces c ps (emit EvListerList st)) = oc2"
      and "decisions (snd (checkPNamespaces c ps (emit EvListerList st))) =
             decisions (emit EvListerList st) + D2" by blast+
    with e have "x1 = oc2" "decisions x2 = decisions st + D2" by simp_all
    with e show "fst (?g st) = (case err of Some e \<Rightarrow> Returned | None \<Rightarrow> oc2)
      \<and> decisions (snd (?g st)) = decisions st + (case err of Some e \<Rightarrow> {#} | None \<Rightarrow> D2)"
      by (simp split: option.splits)
  qed
  have f: "\<forall>st. fst (checkTenantClusters c (GetClusterNames c) (emit EvGetClusterNames st)) = oc1
      \<and> decisions (snd (checkTenantClusters c (GetClusterNames c) (emit EvGetClusterNames st)))
          = decisions st + D1"
    using a by simp
  have eq: "checkNamespaces c st =
      (case checkTenantClusters c (GetClusterNames c) (emit EvGetClusterNames st) of
         (Panicked, s) \<Rightarrow> (Panicked, s) | (Returned, s) \<Rightarrow> ?g s)" for st
    using False l by (simp add: checkNamespaces_def Let_def split: prod.splits outcome.splits)
  from steady_seq [OF f g] show ?thesis unfolding eq by simp
qed

text \<open>A cycle always leaves its first call in the trace.\<close>

lemma checkNamespaces_grows: "trace (snd (checkNamespaces c st)) \<noteq> trace st"
  using checkNamespaces_extends [of c st] by auto

text \<open>Each loop at the element the theorems are about, from any starting state.\<close>

lemma orphan_loop_not_found:
  assumes "checkPNamespaces c pre s = (Returned, sa)"
    and "GetVirtualOwner c p = (clusterName, vNamespace)"
    and "clusterName \<noteq> []" and "vNamespace \<noteq> []"
    and "IsNotFound (snd (mcGet c clusterName [] vNamespace))"
  shows "checkPNamespaces c (pre @ [p]) s =
           (Returned, deletePNamespace c p (emit (EvGet clusterName [] vNamespace) sa))
       \<and> checkPNamespaces c (pre @ p # post) s =
           checkPNamespaces c post (deletePNamespace c p (emit (EvGet clusterName [] vNamespace) sa))"
proof -
  have "checkPNamespace c p sa =
      (Returned, deletePNamespace c p (emit (EvGet clusterName [] vNamespace) sa))"
    using assms(2-5) by (simp add: checkPNamespace_not_found IsNotFound_iff)
  with assms(1) show ?thesis by (simp add: checkPNamespaces_append)
qed

lemma orphan_loop_mismatch:
  assumes "checkPNamespaces c pre s = (Returned, sa)"
    and "GetVirtualOwner c p = (clusterName, vNamespace)"
    and "clusterName \<noteq> []" and "vNamespace \<noteq> []"
    and "mcGet c clusterName [] vNamespace = (Some vNs, None)"
    and "annotation p (LabelUID c) \<noteq> UID vNs"
  shows "checkPNamespaces c (pre @ [p]) s =
           (Returned, deletePNamespace c p
              (klog Warning (DelegatedUIDDiffers (Name p)) (emit (EvGet clusterName [] vNamespace) sa)))
       \<and> checkPNamespaces c (pre @ p # post) s =
           checkPNamespaces c post (deletePNamespace c p
              (klog Warning (DelegatedUIDDiffers (Name p)) (emit (EvGet clusterName [] vNamespace) sa)))"
proof -
  have "checkPNamespace c p sa =
      (Returned, deletePNamespace c p
         (klog Warning (DelegatedUIDDiffers (Name p)) (emit (EvGet clusterName [] vNamespace) sa)))"
    using assms(2-6) by (rule checkPNamespace_mismatch)
  with assms(1) show ?thesis by (simp add: checkPNamespaces_append)
qed

lemma tenant_loop_not_found:
  assumes "checkVNamespaces c clusterName pre s = (Returned, s1)"
    and "IsNotFound (snd (nsListerGet c (ToSuperMasterNamespace c clusterName (Name v))))"
  shows "checkVNamespaces c clusterName (pre @ [v]) s =
           (Returned, requeueVNamespace c clusterName v
              (emit (EvListerGet (ToSuperMasterNamespace c clusterName (Name v))) s1))
       \<and> checkVNamespaces c clusterName (pre @ v # post) s =
           checkVNamespaces c clusterName post (requeueVNamespace c clusterName v
              (emit (EvListerGet (ToSuperMasterNamespace c clusterName (Name v))) s1))"
proof -
  have "checkVNamespace c clusterName v s1 =
      (Returned, requeueVNamespace c clusterName v
         (emit (EvListerGet (ToSuperMasterNamespace c clusterName (Name v))) s1))"
    using assms(2) by (simp add: checkVNamespace_not_found IsNotFound_iff)
  with assms(1) show ?thesis by (simp add: checkVNamespaces_append)
qed

text \<open>The cycle once the tenant scans have returned and the listing has succeeded.\<close>

lemma checkNamespaces_orphan_phase:
  assumes "GetClusterNames c \<noteq> []"
    and "checkTenantClusters c (GetClusterNames c) (emit EvGetClusterNames st) = (Returned, s1)"
    and "nsListerList c = (ps, None)"
  shows "checkNamespaces c st =
     (case checkPNamespaces c ps (emit EvListerList s1) of
        (oc, s3) \<Rightarrow> (oc, RecordCheckerScanDuration ''namespace'' s3))"
  using assms by (simp add: checkNamespaces_def)

lemma tenant_phase_trace:
  assumes "checkTenantClusters c names (emit EvGetClusterNames st) = (oc, s1)"
  shows "\<exists>es. trace s1 = trace st @ EvGetClusterNames # es"
  using checkTenantClusters_extends [of c names "emit EvGetClusterNames st"] assms
  by (auto simp: emit_def)

lemma orphan_phase_trace:
  assumes "checkTenantClusters c names (emit EvGetClusterNames st) = (oc, s1)"
    and "checkPNamespaces c pre (emit EvListerList s1) = (oc', sa)"
  shows "\<exists>es. trace sa = trace st @ es"
proof -
  from tenant_phase_trace [OF assms(1)] obtain es where "trace s1 = trace st @ EvGetClusterNames # es"
    by blast
  moreover from checkPNamespaces_extends [of c pre "emit EvListerList s1"] assms(2)
  obtain es' where "trace sa = trace (emit EvListerList s1) @ es'" by auto
  ultimately show ?thesis by (simp add: emit_def)
qed

subsection \<open>The orphan scan\<close>

text \<open>
  C3: take a cycle whose tenant scans have returned and whose listing of the super master
  namespaces succeeds. When the orphan scan, going through that listing, reaches a
  namespace with a valid owner whose tenant lookup answers not-found, it issues one
  delete for it, which is among the calls of the cycle, and goes on with the rest of the
  listing. When the delete succeeds the counter \<open>numDeletedOrphanSuperMasterNamespaces\<close>
  grows by exactly one and nothing is logged; when it fails the failure is logged and the
  counter keeps its value.
\<close>

theorem C3_orphan_deleted_and_counted:
  assumes "GetClusterNames c \<noteq> []"
    and "checkTenantClusters c (GetClusterNames c) (emit EvGetClusterNames st) = (Returned, s1)"
    and "nsListerList c = (pre @ p # post, None)"
    and "checkPNamespaces c pre (emit EvListerList s1) = (Returned, sa)"
    and "GetVirtualOwner c p = (clusterName, vNamespace)"
    and "clusterName \<noteq> []" and "vNamespace \<noteq> []"
    and "IsNotFound (snd (mcGet c clusterName [] vNamespace))"
  shows "let opts = \<lparr>PropagationPolicy = Some (DefaultDeletionPolicy c),
                      DeletePreconditions = Some (NewUIDPreconditions (UID p))\<rparr>;
             err = namespacesDelete c (trace sa @ [EvGet clusterName [] vNamespace]) (Name p) opts;
             sb = snd (checkPNamespaces c (pre @ [p]) (emit EvListerList s1))
         in checkPNamespaces c (pre @ [p]) (emit EvListerList s1) = (Returned, sb)
          \<and> checkNamespaces c st =
              (case checkPNamespaces c post sb of
                 (oc, s3) \<Rightarrow> (oc, RecordCheckerScanDuration ''namespace'' s3))
          \<and> EvDelete (Name p) opts err
              \<in> set (drop (length (trace st)) (trace (snd (checkNamespaces c st))))
          \<and> trace sb = trace sa @ [EvGet clusterName [] vNamespace, EvDelete (Name p) opts err]
          \<and> scanDurations sb = scanDurations sa
          \<and> (err = None \<longrightarrow>
               CheckerRemedyStats sb = (CheckerRemedyStats sa)
                 (''numDeletedOrphanSuperMasterNamespaces'' :=
                    CheckerRemedyStats sa ''numDeletedOrphanSuperMasterNamespaces'' + 1)
               \<and> logs sb = logs sa)
          \<and> (\<forall>e. err = Some e \<longrightarrow>
               CheckerRemedyStats sb = CheckerRemedyStats sa
               \<and> logs sb = logs sa @ [(Error, DeleteFailed (Name p) e)])"
proof -
  let ?s2 = "emit EvListerList s1"
  let ?sb = "deletePNamespace c p (emit (EvGet clusterName [] vNamespace) sa)"
  from orphan_loop_not_found [OF assms(4-8), of post]
  have one: "checkPNamespaces c (pre @ [p]) ?s2 = (Returned, ?sb)"
    and rest: "checkPNamespaces c (pre @ p # post) ?s2 = checkPNamespaces c post ?sb"
    by simp_all
  have cyc: "checkNamespaces c st =
      (case checkPNamespaces c post ?sb of
         (oc, s3) \<Rightarrow> (oc, RecordCheckerScanDuration ''namespace'' s3))"
    using checkNamespaces_orphan_phase [OF assms(1-3)] rest by simp
  from orphan_phase_trace [OF assms(2) assms(4)] obtain es where
    sa: "trace sa = trace st @ es" by blast
  from checkPNamespaces_extends [of c post ?sb] obtain es' where
    post: "trace (snd (checkPNamespaces c post ?sb)) = trace ?sb @ es'" by blast
  have fin: "trace (snd (checkNamespaces c st)) = trace ?sb @ es'"
    unfolding cyc using post
    by (cases "checkPNamespaces c post ?sb") (simp add: RecordCheckerScanDuration_def)
  have sb: "trace ?sb = trace st @ es @ [EvGet clusterName [] vNamespace,
      EvDelete (Name p)
        \<lparr>PropagationPolicy = Some (DefaultDeletionPolicy c),
         DeletePreconditions = Some (NewUIDPreconditions (UID p))\<rparr>
        (namespacesDelete c (trace sa @ [EvGet clusterName [] vNamespace]) (Name p)
          \<lparr>PropagationPolicy = Some (DefaultDeletionPolicy c),
           DeletePreconditions = Some (NewUIDPreconditions (UID p))\<rparr>)]"
    by (simp add: deletePNamespace_effect emit_def sa)
  have mem: "EvDelete (Name p)
        \<lparr>PropagationPolicy = Some (DefaultDeletionPolicy c),
         DeletePreconditions = Some (NewUIDPreconditions (UID p))\<rparr>
        (namespacesDelete c (trace sa @ [EvGet clusterName [] vNamespace]) (Name p)
          \<lparr>PropagationPolicy = Some (DefaultDeletionPolicy c),
           DeletePreconditions = Some (NewUIDPreconditions (UID p))\<rparr>)
      \<in> set (drop (length (trace st)) (trace (snd (checkNamespaces c st))))"
    unfolding fin sb by simp
  have fields: "trace ?sb = trace sa @ [EvGet clusterName [] vNamespace,
      EvDelete (Name p)
        \<lparr>PropagationPolicy = Some (DefaultDeletionPolicy c),
         DeletePreconditions = Some (NewUIDPreconditions (UID p))\<rparr>
        (namespacesDelete c (trace sa @ [EvGet clusterName [] vNamespace]) (Name p)
          \<lparr>PropagationPolicy = Some (DefaultDeletionPolicy c),
           DeletePreconditions = Some (NewUIDPreconditions (UID p))\<rparr>)]
    \<and> scanDurations ?sb = scanDurations sa
    \<and> (namespacesDelete c (trace sa @ [EvGet clusterName [] vNamespace]) (Name p)
          \<lparr>PropagationPolicy = Some (DefaultDeletionPolicy c),
           DeletePreconditions = Some (NewUIDPreconditions (UID p))\<rparr> = None \<longrightarrow>
         CheckerRemedyStats ?sb = (CheckerRemedyStats sa)
           (''numDeletedOrphanSuperMasterNamespaces'' :=
              CheckerRemedyStats sa ''numDeletedOrphanSuperMasterNamespaces'' + 1)
         \<and> logs ?sb = logs sa)
    \<and> (\<forall>e. namespacesDelete c (trace sa @ [EvGet clusterName [] vNamespace]) (Name p)
          \<lparr>PropagationPolicy = Some (DefaultDeletionPolicy c),
           DeletePreconditions = Some (NewUIDPreconditions (UID p))\<rparr> = Some e \<longrightarrow>
         CheckerRemedyStats ?sb = CheckerRemedyStats sa
         \<and> logs ?sb = logs sa @ [(Error, DeleteFailed (Name p) e)])"
    by (simp add: deletePNamespace_def effect_defs Let_def split: option.splits)
  show ?thesis
    unfolding Let_def one snd_conv
    using cyc mem fields by blast
qed

theorem C3_orphan_deleted_and_counted_witness:
  "GetClusterNames ctlOrphan \<noteq> []
   \<and> checkTenantClusters ctlOrphan (GetClusterNames ctlOrphan) (emit EvGetClusterNames st0) =
       (Returned, st0\<lparr>trace := [EvGetClusterNames, EvList ''t1''],
                      logs := [(InfoV4, CheckCluster ''t1'')]\<rparr>)
   \<and> nsListerList ctlOrphan = ([] @ pB # [], None)
   \<and> GetVirtualOwner ctlOrphan pB = (''t1'', ''ns1'')
   \<and> IsNotFound (snd (mcGet ctlOrphan ''t1'' [] ''ns1''))
   \<and> EvDelete ''t1-ns1''
        \<lparr>PropagationPolicy = Some ''Background'',
         DeletePreconditions = Some (NewUIDPreconditions ''p1'')\<rparr> None
       \<in> set (drop (length (trace st0)) (trace (snd (checkNamespaces ctlOrphan st0))))
   \<and> CheckerRemedyStats
        (snd (checkPNamespaces ctlOrphan ([] @ [pB])
           (emit EvListerList (st0\<lparr>trace := [EvGetClusterNames, EvList ''t1''],
                                    logs := [(InfoV4, CheckCluster ''t1'')]\<rparr>))))
        ''numDeletedOrphanSuperMasterNamespaces'' = 1"
proof -
  let ?s1 = "st0\<lparr>trace := [EvGetClusterNames, EvList ''t1''],
                  logs := [(InfoV4, CheckCluster ''t1'')]\<rparr>"
  have h1: "GetClusterNames ctlOrphan \<noteq> []" by (simp add: ctlOrphan_def ctl0_def)
  have h2: "checkTenantClusters ctlOrphan (GetClusterNames ctlOrphan) (emit EvGetClusterNames st0) =
      (Returned, ?s1)"
    by (simp add: ctlOrphan_def ctl0_def st0_def checkNamespacesOfTenantCluster_def effect_defs)
  have h3: "nsListerList ctlOrphan = ([] @ pB # [], None)" by (simp add: ctlOrphan_def ctl0_def)
  have h4: "checkPNamespaces ctlOrphan [] (emit EvListerList ?s1) = (Returned, emit EvListerList ?s1)"
    by simp
  have h5: "GetVirtualOwner ctlOrphan pB = (''t1'', ''ns1'')"
    by (simp add: ctlOrphan_def ctl0_def owner0_def pB_def annotation_def)
  have h8: "IsNotFound (snd (mcGet ctlOrphan ''t1'' [] ''ns1''))"
    by (simp add: ctlOrphan_def ctl0_def)
  have d: "namespacesDelete ctlOrphan = (\<lambda>_ _ _. None)"
    "DefaultDeletionPolicy ctlOrphan = ''Background''" "Name pB = ''t1-ns1''" "UID pB = ''p1''"
    by (simp_all add: ctlOrphan_def ctl0_def pB_def)
  have z: "CheckerRemedyStats (emit EvListerList ?s1) = (\<lambda>_. 0)"
    by (simp add: emit_def st0_def)
  have ne: "''t1'' \<noteq> []" "''ns1'' \<noteq> []" by simp_all
  note inst = C3_orphan_deleted_and_counted [OF h1 h2 h3 h4 h5 ne h8, unfolded Let_def]
  from inst have m: "EvDelete (Name pB)
        \<lparr>PropagationPolicy = Some (DefaultDeletionPolicy ctlOrphan),
         DeletePreconditions = Some (NewUIDPreconditions (UID pB))\<rparr>
        (namespacesDelete ctlOrphan (trace (emit EvListerList ?s1) @ [EvGet ''t1'' [] ''ns1''])
           (Name pB)
           \<lparr>PropagationPolicy = Some (DefaultDeletionPolicy ctlOrphan),
            DeletePreconditions = Some (NewUIDPreconditions (UID pB))\<rparr>)
       \<in> set (drop (length (trace st0)) (trace (snd (checkNamespaces ctlOrphan st0))))"
    by blast
  from inst have cnt: "namespacesDelete ctlOrphan
           (trace (emit EvListerList ?s1) @ [EvGet ''t1'' [] ''ns1'']) (Name pB)
           \<lparr>PropagationPolicy = Some (DefaultDeletionPolicy ctlOrphan),
            DeletePreconditions = Some (NewUIDPreconditions (UID pB))\<rparr> = None \<longrightarrow>
        CheckerRemedyStats
          (snd (checkPNamespaces ctlOrphan ([] @ [pB]) (emit EvListerList ?s1))) =
        (CheckerRemedyStats (emit EvListerList ?s1))
          (''numDeletedOrphanSuperMasterNamespaces'' :=
             CheckerRemedyStats (emit EvListerList ?s1)
               ''numDeletedOrphanSuperMasterNamespaces'' + 1)"
    by blast
  from m have m': "EvDelete ''t1-ns1''
        \<lparr>PropagationPolicy = Some ''Background'',
         DeletePreconditions = Some (NewUIDPreconditions ''p1'')\<rparr> None
       \<in> set (drop (length (trace st0)) (trace (snd (checkNamespaces ctlOrphan st0))))"
    by (simp only: d)
  from cnt have cnt': "CheckerRemedyStats
        (snd (checkPNamespaces ctlOrphan ([] @ [pB]) (emit EvListerList ?s1)))
        ''numDeletedOrphanSuperMasterNamespaces'' = 1"
    by (simp only: d z) simp
  from h1 h2 h3 h5 h8 m' cnt' show ?thesis by blast
qed

text \<open>
  C10: take a cycle whose tenant scans have returned and whose listing of the super
  master namespaces succeeds. When the orphan scan reaches a listed namespace with a
  valid owner and no delegated UID annotation, or an empty one, the annotation is
  compared as the empty string. When the tenant namespace exists with a UID that is not
  empty, the scan logs the mismatch as a warning and issues a delete for the super master
  namespace, which is among the calls of the cycle.
\<close>

theorem C10_missing_delegated_uid_is_mismatch:
  assumes "GetClusterNames c \<noteq> []"
    and "checkTenantClusters c (GetClusterNames c) (emit EvGetClusterNames st) = (Returned, s1)"
    and "nsListerList c = (pre @ p # post, None)"
    and "checkPNamespaces c pre (emit EvListerList s1) = (Returned, sa)"
    and "GetVirtualOwner c p = (clusterName, vNamespace)"
    and "clusterName \<noteq> []" and "vNamespace \<noteq> []"
    and "mcGet c clusterName [] vNamespace = (Some vNs, None)"
    and "Annotations p (LabelUID c) = None \<or> Annotations p (LabelUID c) = Some []"
    and "UID vNs \<noteq> []"
  shows "let opts = \<lparr>PropagationPolicy = Some (DefaultDeletionPolicy c),
                      DeletePreconditions = Some (NewUIDPreconditions (UID p))\<rparr>;
             err = namespacesDelete c (trace sa @ [EvGet clusterName [] vNamespace]) (Name p) opts;
             sb = snd (checkPNamespaces c (pre @ [p]) (emit EvListerList s1))
         in annotation p (LabelUID c) = []
          \<and> checkPNamespaces c (pre @ [p]) (emit EvListerList s1) = (Returned, sb)
          \<and> checkNamespaces c st =
              (case checkPNamespaces c post sb of
                 (oc, s3) \<Rightarrow> (oc, RecordCheckerScanDuration ''namespace'' s3))
          \<and> EvDelete (Name p) opts err
              \<in> set (drop (length (trace st)) (trace (snd (checkNamespaces c st))))
          \<and> trace sb = trace sa @ [EvGet clusterName [] vNamespace, EvDelete (Name p) opts err]
          \<and> take (Suc (length (logs sa))) (logs sb) =
              logs sa @ [(Warning, DelegatedUIDDiffers (Name p))]"
proof -
  let ?s2 = "emit EvListerList s1"
  let ?sb = "deletePNamespace c p
     (klog Warning (DelegatedUIDDiffers (Name p)) (emit (EvGet clusterName [] vNamespace) sa))"
  have empty: "annotation p (LabelUID c) = []"
    using assms(9) by (auto simp: annotation_def)
  with assms(10) have diff: "annotation p (LabelUID c) \<noteq> UID vNs" by simp
  from orphan_loop_mismatch [OF assms(4-8) diff, of post]
  have one: "checkPNamespaces c (pre @ [p]) ?s2 = (Returned, ?sb)"
    and rest: "checkPNamespaces c (pre @ p # post) ?s2 = checkPNamespaces c post ?sb"
    by simp_all
  have cyc: "checkNamespaces c st =
      (case checkPNamespaces c post ?sb of
         (oc, s3) \<Rightarrow> (oc, RecordCheckerScanDuration ''namespace'' s3))"
    using checkNamespaces_orphan_phase [OF assms(1-3)] rest by simp
  from orphan_phase_trace [OF assms(2) assms(4)] obtain es where
    sa: "trace sa = trace st @ es" by blast
  from checkPNamespaces_extends [of c post ?sb] obtain es' where
    post: "trace (snd (checkPNamespaces c post ?sb)) = trace ?sb @ es'" by blast
  have fin: "trace (snd (checkNamespaces c st)) = trace ?sb @ es'"
    unfolding cyc using post
    by (cases "checkPNamespaces c post ?sb") (simp add: RecordCheckerScanDuration_def)
  have sb: "trace ?sb = trace st @ es @ [EvGet clusterName [] vNamespace,
      EvDelete (Name p)
        \<lparr>PropagationPolicy = Some (DefaultDeletionPolicy c),
         DeletePreconditions = Some (NewUIDPreconditions (UID p))\<rparr>
        (namespacesDelete c (trace sa @ [EvGet clusterName [] vNamespace]) (Name p)
          \<lparr>PropagationPolicy = Some (DefaultDeletionPolicy c),
           DeletePreconditions = Some (NewUIDPreconditions (UID p))\<rparr>)]"
    by (simp add: deletePNamespace_effect effect_defs sa)
  have mem: "EvDelete (Name p)
        \<lparr>PropagationPolicy = Some (DefaultDeletionPolicy c),
         DeletePreconditions = Some (NewUIDPreconditions (UID p))\<rparr>
        (namespacesDelete c (trace sa @ [EvGet clusterName [] vNamespace]) (Name p)
          \<lparr>PropagationPolicy = Some (DefaultDeletionPolicy c),
           DeletePreconditions = Some (NewUIDPreconditions (UID p))\<rparr>)
      \<in> set (drop (length (trace st)) (trace (snd (checkNamespaces c st))))"
    unfolding fin sb by simp
  have fields: "trace ?sb = trace sa @ [EvGet clusterName [] vNamespace,
      EvDelete (Name p)
        \<lparr>PropagationPolicy = Some (DefaultDeletionPolicy c),
         DeletePreconditions = Some (NewUIDPreconditions (UID p))\<rparr>
        (namespacesDelete c (trace sa @ [EvGet clusterName [] vNamespace]) (Name p)
          \<lparr>PropagationPolicy = Some (DefaultDeletionPolicy c),
           DeletePreconditions = Some (NewUIDPreconditions (UID p))\<rparr>)]
    \<and> take (Suc (length (logs sa))) (logs ?sb) =
        logs sa @ [(Warning, DelegatedUIDDiffers (Name p))]"
    by (simp add: deletePNamespace_def effect_defs Let_def split: option.splits)
  show ?thesis
    unfolding Let_def one snd_conv
    using empty cyc mem fields by blast
qed

theorem C10_missing_delegated_uid_is_mismatch_witness:
  "GetClusterNames ctlNoUID \<noteq> []
   \<and> checkTenantClusters ctlNoUID (GetClusterNames ctlNoUID) (emit EvGetClusterNames st0) =
       (Returned, st0\<lparr>trace := [EvGetClusterNames, EvList ''t1''],
                      logs := [(InfoV4, CheckCluster ''t1'')]\<rparr>)
   \<and> nsListerList ctlNoUID = ([] @ pNoUID # [], None)
   \<and> GetVirtualOwner ctlNoUID pNoUID = (''t1'', ''ns1'')
   \<and> mcGet ctlNoUID ''t1'' [] ''ns1'' = (Some vC, None)
   \<and> Annotations pNoUID (LabelUID ctlNoUID) = None
   \<and> UID vC \<noteq> []
   \<and> EvDelete ''t1-ns1''
        \<lparr>PropagationPolicy = Some ''Background'',
         DeletePreconditions = Some (NewUIDPreconditions ''p1'')\<rparr> None
       \<in> set (drop (length (trace st0)) (trace (snd (checkNamespaces ctlNoUID st0))))"
proof -
  let ?s1 = "st0\<lparr>trace := [EvGetClusterNames, EvList ''t1''],
                  logs := [(InfoV4, CheckCluster ''t1'')]\<rparr>"
  have h1: "GetClusterNames ctlNoUID \<noteq> []" by (simp add: ctlNoUID_def ctl0_def)
  have h2: "checkTenantClusters ctlNoUID (GetClusterNames ctlNoUID) (emit EvGetClusterNames st0) =
      (Returned, ?s1)"
    by (simp add: ctlNoUID_def ctl0_def st0_def checkNamespacesOfTenantCluster_def effect_defs)
  have h3: "nsListerList ctlNoUID = ([] @ pNoUID # [], None)" by (simp add: ctlNoUID_def ctl0_def)
  have h4: "checkPNamespaces ctlNoUID [] (emit EvListerList ?s1) = (Returned, emit EvListerList ?s1)"
    by simp
  have h5: "GetVirtualOwner ctlNoUID pNoUID = (''t1'', ''ns1'')"
    by (simp add: ctlNoUID_def ctl0_def owner0_def pNoUID_def annotation_def)
  have h8: "mcGet ctlNoUID ''t1'' [] ''ns1'' = (Some vC, None)"
    by (simp add: ctlNoUID_def ctl0_def)
  have h9: "Annotations pNoUID (LabelUID ctlNoUID) = None"
    by (simp add: ctlNoUID_def ctl0_def pNoUID_def)
  have h10: "UID vC \<noteq> []" by (simp add: vC_def)
  have d: "namespacesDelete ctlNoUID = (\<lambda>_ _ _. None)"
    "DefaultDeletionPolicy ctlNoUID = ''Background''" "Name pNoUID = ''t1-ns1''"
    "UID pNoUID = ''p1''"
    by (simp_all add: ctlNoUID_def ctl0_def pNoUID_def)
  have ne: "''t1'' \<noteq> []" "''ns1'' \<noteq> []" by simp_all
  have h9': "Annotations pNoUID (LabelUID ctlNoUID) = None
      \<or> Annotations pNoUID (LabelUID ctlNoUID) = Some []" using h9 by simp
  note inst = C10_missing_delegated_uid_is_mismatch
    [OF h1 h2 h3 h4 h5 ne h8 h9' h10, unfolded Let_def]
  from inst have m: "EvDelete (Name pNoUID)
        \<lparr>PropagationPolicy = Some (DefaultDeletionPolicy ctlNoUID),
         DeletePreconditions = Some (NewUIDPreconditions (UID pNoUID))\<rparr>
        (namespacesDelete ctlNoUID (trace (emit EvListerList ?s1) @ [EvGet ''t1'' [] ''ns1''])
           (Name pNoUID)
           \<lparr>PropagationPolicy = Some (DefaultDeletionPolicy ctlNoUID),
            DeletePreconditions = Some (NewUIDPreconditions (UID pNoUID))\<rparr>)
       \<in> set (drop (length (trace st0)) (trace (snd (checkNamespaces ctlNoUID st0))))"
    by blast
  from m have m': "EvDelete ''t1-ns1''
        \<lparr>PropagationPolicy = Some ''Background'',
         DeletePreconditions = Some (NewUIDPreconditions ''p1'')\<rparr> None
       \<in> set (drop (length (trace st0)) (trace (snd (checkNamespaces ctlNoUID st0))))"
    by (simp only: d)
  from h1 h2 h3 h5 h8 h9 h10 m' show ?thesis by blast
qed

text \<open>
  C6, as the code has it: when the tenant lookup for a super master namespace with a
  valid owner fails with an error that is not a not-found, the loop issues no delete for
  it, changes no counter, and goes on with the rest of the list. Nothing is logged for
  it: the state after the namespace differs from the state before only by the lookup
  recorded in the trace.
\<close>

theorem C6_other_lookup_error_skipped_silently:
  assumes "checkPNamespaces c pre st = (Returned, s1)"
    and "GetVirtualOwner c p = (clusterName, vNamespace)"
    and "clusterName \<noteq> []" and "vNamespace \<noteq> []"
    and "snd (mcGet c clusterName [] vNamespace) = Some e" and "e \<noteq> NotFound"
  shows "checkPNamespaces c (pre @ [p]) st =
           (Returned, s1\<lparr>trace := trace s1 @ [EvGet clusterName [] vNamespace]\<rparr>)
       \<and> checkPNamespaces c (pre @ p # post) st =
           checkPNamespaces c post (s1\<lparr>trace := trace s1 @ [EvGet clusterName [] vNamespace]\<rparr>)"
proof -
  have body: "checkPNamespace c p s1 = (Returned, emit (EvGet clusterName [] vNamespace) s1)"
    using assms(2-6) by (rule checkPNamespace_other_error)
  show ?thesis
    using assms(1) body by (simp add: checkPNamespaces_append emit_def)
qed

theorem C6_other_lookup_error_skipped_silently_witness:
  "checkPNamespaces ctlOrphanTransient [] st0 = (Returned, st0)
   \<and> GetVirtualOwner ctlOrphanTransient pB = (''t1'', ''ns1'')
   \<and> snd (mcGet ctlOrphanTransient ''t1'' [] ''ns1'') = Some (OtherError ''timeout'')
   \<and> checkPNamespaces ctlOrphanTransient [pB] st0 =
       (Returned, st0\<lparr>trace := trace st0 @ [EvGet ''t1'' [] ''ns1'']\<rparr>)"
proof -
  have h1: "checkPNamespaces ctlOrphanTransient [] st0 = (Returned, st0)" by simp
  have h2: "GetVirtualOwner ctlOrphanTransient pB = (''t1'', ''ns1'')"
    by (simp add: ctlOrphanTransient_def ctl0_def owner0_def pB_def annotation_def)
  have h3: "snd (mcGet ctlOrphanTransient ''t1'' [] ''ns1'') = Some (OtherError ''timeout'')"
    by (simp add: ctlOrphanTransient_def ctl0_def)
  from C6_other_lookup_error_skipped_silently [OF h1 h2 _ _ h3, of "[]"] h1 h2 h3
  show ?thesis by simp
qed

text \<open>
  The claim C6 as written asks for the failure to be logged. Here the tenant lookup
  times out, and the orphan scan leaves the log empty.
\<close>

theorem C6_failure_not_logged_counterexample:
  "mcGet ctlOrphanTransient ''t1'' [] ''ns1'' = (None, Some (OtherError ''timeout''))
   \<and> GetVirtualOwner ctlOrphanTransient pB = (''t1'', ''ns1'')
   \<and> fst (checkPNamespaces ctlOrphanTransient [pB] st0) = Returned
   \<and> logs (snd (checkPNamespaces ctlOrphanTransient [pB] st0)) = []"
  by (simp add: ctlOrphanTransient_def ctl0_def owner0_def pB_def annotation_def
        checkPNamespace_unfold st0_def emit_def)

text \<open>
  C1, as the code has it: every delete that a check cycle issues is for a namespace of
  the super master listing, and its options carry the default deletion policy and a
  precondition on the UID of that super master namespace itself, as the listing read it.
\<close>

theorem C1_delete_precondition_is_own_uid:
  assumes "EvDelete n opts r \<in> set (drop (length (trace st)) (trace (snd (checkNamespaces c st))))"
  shows "\<exists>p\<in>set (fst (nsListerList c)).
           n = Name p
         \<and> opts = \<lparr>PropagationPolicy = Some (DefaultDeletionPolicy c),
                    DeletePreconditions = Some (NewUIDPreconditions (UID p))\<rparr>"
proof -
  from checkNamespaces_extends [of c st] obtain es where
    es: "trace (snd (checkNamespaces c st)) = trace st @ EvGetClusterNames # es"
      "\<forall>ev\<in>set es. isDelete ev \<longrightarrow>
         (\<exists>p\<in>set (fst (nsListerList c)). \<exists>r. ev = EvDelete (Name p)
              \<lparr>PropagationPolicy = Some (DefaultDeletionPolicy c),
               DeletePreconditions = Some (NewUIDPreconditions (UID p))\<rparr> r)" by blast
  from assms es(1) have "EvDelete n opts r \<in> set es" by simp
  with es(2) show ?thesis by fastforce
qed

theorem C1_delete_precondition_is_own_uid_witness:
  "EvDelete ''t1-ns1''
      \<lparr>PropagationPolicy = Some ''Background'',
       DeletePreconditions = Some (NewUIDPreconditions ''p1'')\<rparr> None
     \<in> set (drop (length (trace st0)) (trace (snd (checkNamespaces ctlOrphan st0))))
   \<and> (\<exists>p\<in>set (fst (nsListerList ctlOrphan)).
         ''t1-ns1'' = Name p
       \<and> \<lparr>PropagationPolicy = Some ''Background'',
          DeletePreconditions = Some (NewUIDPreconditions ''p1'')\<rparr>
         = \<lparr>PropagationPolicy = Some (DefaultDeletionPolicy ctlOrphan),
            DeletePreconditions = Some (NewUIDPreconditions (UID p))\<rparr>)"
proof -
  have h: "EvDelete ''t1-ns1''
      \<lparr>PropagationPolicy = Some ''Background'',
       DeletePreconditions = Some (NewUIDPreconditions ''p1'')\<rparr> None
     \<in> set (drop (length (trace st0)) (trace (snd (checkNamespaces ctlOrphan st0))))"
    by (simp add: ctlOrphan_def ctl0_def owner0_def pB_def annotation_def st0_def
          checkNamespaces_def checkNamespacesOfTenantCluster_def checkPNamespace_unfold
          deletePNamespace_def effect_defs Let_def)
  from C1_delete_precondition_is_own_uid [OF h] h show ?thesis by simp
qed

text \<open>
  The claim C1 as written takes the precondition from the delegated UID annotation.
  Here the orphan has the delegated UID \<open>u1\<close> and the UID \<open>p1\<close> of its own, and the
  delete asks for \<open>p1\<close>.
\<close>

theorem C1_precondition_not_delegated_uid_counterexample:
  "trace (snd (checkNamespaces ctlOrphan st0)) =
     [EvGetClusterNames, EvList ''t1'', EvListerList, EvGet ''t1'' [] ''ns1'',
      EvDelete ''t1-ns1''
        \<lparr>PropagationPolicy = Some ''Background'',
         DeletePreconditions = Some (NewUIDPreconditions ''p1'')\<rparr> None]
   \<and> annotation pB (LabelUID ctlOrphan) = ''u1''
   \<and> NewUIDPreconditions ''p1'' \<noteq> NewUIDPreconditions (annotation pB (LabelUID ctlOrphan))"
  by (simp add: ctlOrphan_def ctl0_def owner0_def pB_def annotation_def st0_def
        checkNamespaces_def checkNamespacesOfTenantCluster_def checkPNamespace_unfold
        deletePNamespace_def effect_defs Let_def NewUIDPreconditions_def)

subsection \<open>The tenant scan\<close>

text \<open>
  C4: take the scan of a tenant whose listing succeeds. When the scan, going through the
  listed namespaces, reaches a namespace whose super master counterpart is not found, it
  requeues that namespace once, the call is among the calls of the scan, and the scan
  goes on with the rest of the listing. When the requeue succeeds the counter
  \<open>numRequeuedTenantNamespaces\<close> grows by exactly one and nothing is logged; when it
  fails the failure is logged, the counter keeps its value, and the call is not repeated.
\<close>

theorem C4_missing_counterpart_requeued_and_counted:
  assumes "mcList c clusterName = (Some (pre @ v # post), None)"
    and "checkVNamespaces c clusterName pre
           (klog InfoV4 (CheckCluster clusterName) (emit (EvList clusterName) st)) = (Returned, s1)"
    and "IsNotFound (snd (nsListerGet c (ToSuperMasterNamespace c clusterName (Name v))))"
  shows "let target = ToSuperMasterNamespace c clusterName (Name v);
             err = RequeueObject c (trace s1 @ [EvListerGet target]) clusterName v;
             start = klog InfoV4 (CheckCluster clusterName) (emit (EvList clusterName) st);
             s2 = snd (checkVNamespaces c clusterName (pre @ [v]) start)
         in checkVNamespaces c clusterName (pre @ [v]) start = (Returned, s2)
          \<and> checkNamespacesOfTenantCluster c clusterName st =
              checkVNamespaces c clusterName post s2
          \<and> EvRequeueObject clusterName v err
              \<in> set (drop (length (trace st))
                      (trace (snd (checkNamespacesOfTenantCluster c clusterName st))))
          \<and> trace s2 = trace s1 @ [EvListerGet target, EvRequeueObject clusterName v err]
          \<and> scanDurations s2 = scanDurations s1
          \<and> (err = None \<longrightarrow>
               CheckerRemedyStats s2 = (CheckerRemedyStats s1)
                 (''numRequeuedTenantNamespaces'' :=
                    CheckerRemedyStats s1 ''numRequeuedTenantNamespaces'' + 1)
               \<and> logs s2 = logs s1)
          \<and> (\<forall>e. err = Some e \<longrightarrow>
               CheckerRemedyStats s2 = CheckerRemedyStats s1
               \<and> logs s2 = logs s1 @ [(Error, RequeueFailed (Name v) clusterName e)])"
proof -
  let ?t = "ToSuperMasterNamespace c clusterName (Name v)"
  let ?start = "klog InfoV4 (CheckCluster clusterName) (emit (EvList clusterName) st)"
  let ?s2 = "requeueVNamespace c clusterName v (emit (EvListerGet ?t) s1)"
  let ?err = "RequeueObject c (trace s1 @ [EvListerGet ?t]) clusterName v"
  from tenant_loop_not_found [OF assms(2,3), of post]
  have one: "checkVNamespaces c clusterName (pre @ [v]) ?start = (Returned, ?s2)"
    and rest: "checkVNamespaces c clusterName (pre @ v # post) ?start =
      checkVNamespaces c clusterName post ?s2"
    by simp_all
  have scan: "checkNamespacesOfTenantCluster c clusterName st =
      checkVNamespaces c clusterName post ?s2"
    using assms(1) rest by (simp add: checkNamespacesOfTenantCluster_def)
  from checkVNamespaces_extends [of c clusterName pre ?start] assms(2) obtain es where
    s1: "trace s1 = trace st @ EvList clusterName # es" by (auto simp: effect_defs)
  from checkVNamespaces_extends [of c clusterName post ?s2] obtain es' where
    post: "trace (snd (checkVNamespaces c clusterName post ?s2)) = trace ?s2 @ es'" by blast
  have s2: "trace ?s2 = trace s1 @ [EvListerGet ?t, EvRequeueObject clusterName v ?err]"
    by (simp add: requeueVNamespace_effect emit_def)
  have mem: "EvRequeueObject clusterName v ?err
      \<in> set (drop (length (trace st))
              (trace (snd (checkNamespacesOfTenantCluster c clusterName st))))"
    unfolding scan post s2 s1 by simp
  have fields: "scanDurations ?s2 = scanDurations s1
    \<and> (?err = None \<longrightarrow>
         CheckerRemedyStats ?s2 = (CheckerRemedyStats s1)
           (''numRequeuedTenantNamespaces'' :=
              CheckerRemedyStats s1 ''numRequeuedTenantNamespaces'' + 1)
         \<and> logs ?s2 = logs s1)
    \<and> (\<forall>e. ?err = Some e \<longrightarrow>
         CheckerRemedyStats ?s2 = CheckerRemedyStats s1
         \<and> logs ?s2 = logs s1 @ [(Error, RequeueFailed (Name v) clusterName e)])"
    by (simp add: requeueVNamespace_def effect_defs Let_def split: option.splits)
  show ?thesis
    unfolding Let_def one snd_conv
    using scan mem s2 fields by blast
qed

theorem C4_missing_counterpart_requeued_and_counted_witness:
  "mcList ctlMissing ''t1'' = (Some ([] @ vA # []), None)
   \<and> IsNotFound (snd (nsListerGet ctlMissing (ToSuperMasterNamespace ctlMissing ''t1'' (Name vA))))
   \<and> EvRequeueObject ''t1'' vA None
       \<in> set (drop (length (trace st0))
               (trace (snd (checkNamespacesOfTenantCluster ctlMissing ''t1'' st0))))
   \<and> CheckerRemedyStats
        (snd (checkVNamespaces ctlMissing ''t1'' ([] @ [vA])
           (klog InfoV4 (CheckCluster ''t1'') (emit (EvList ''t1'') st0))))
        ''numRequeuedTenantNamespaces'' = 1"
proof -
  let ?start = "klog InfoV4 (CheckCluster ''t1'') (emit (EvList ''t1'') st0)"
  have h1: "mcList ctlMissing ''t1'' = (Some ([] @ vA # []), None)"
    by (simp add: ctlMissing_def ctl0_def)
  have h2: "checkVNamespaces ctlMissing ''t1'' [] ?start = (Returned, ?start)" by simp
  have h3: "IsNotFound (snd (nsListerGet ctlMissing (ToSuperMasterNamespace ctlMissing ''t1'' (Name vA))))"
    by (simp add: ctlMissing_def ctl0_def)
  have d: "RequeueObject ctlMissing = (\<lambda>_ _ _. None)"
    by (simp add: ctlMissing_def ctl0_def)
  have z: "CheckerRemedyStats ?start = (\<lambda>_. 0)" by (simp add: effect_defs st0_def)
  note inst = C4_missing_counterpart_requeued_and_counted [OF h1 h2 h3, unfolded Let_def]
  from inst have m: "EvRequeueObject ''t1'' vA
        (RequeueObject ctlMissing
           (trace ?start @ [EvListerGet (ToSuperMasterNamespace ctlMissing ''t1'' (Name vA))])
           ''t1'' vA)
       \<in> set (drop (length (trace st0))
               (trace (snd (checkNamespacesOfTenantCluster ctlMissing ''t1'' st0))))"
    by blast
  from inst have cnt: "RequeueObject ctlMissing
           (trace ?start @ [EvListerGet (ToSuperMasterNamespace ctlMissing ''t1'' (Name vA))])
           ''t1'' vA = None \<longrightarrow>
        CheckerRemedyStats (snd (checkVNamespaces ctlMissing ''t1'' ([] @ [vA]) ?start)) =
        (CheckerRemedyStats ?start)
          (''numRequeuedTenantNamespaces'' :=
             CheckerRemedyStats ?start ''numRequeuedTenantNamespaces'' + 1)"
    by blast
  from m have m': "EvRequeueObject ''t1'' vA None
       \<in> set (drop (length (trace st0))
               (trace (snd (checkNamespacesOfTenantCluster ctlMissing ''t1'' st0))))"
    by (simp only: d)
  from cnt have cnt': "CheckerRemedyStats
        (snd (checkVNamespaces ctlMissing ''t1'' ([] @ [vA]) ?start))
        ''numRequeuedTenantNamespaces'' = 1"
    by (simp only: d z) simp
  from h1 h3 m' cnt' show ?thesis by blast
qed

text \<open>
  C2 asks that a lookup error other than not-found is only logged and that the scan goes
  on. The code logs it and then reads the annotations of the nil namespace. Here the
  tenant \<open>t1\<close> has the namespaces \<open>ns1\<close> and \<open>ns2\<close> and the super master lister answers
  every lookup with a timeout: the scan panics at \<open>ns1\<close>, \<open>ns2\<close> is never looked up,
  and the cycle does not complete.
\<close>

theorem C2_transient_lookup_error_panics:
  "nsListerGet ctlTenantTransient ''t1-ns1'' = (None, Some (OtherError ''timeout''))
   \<and> mcList ctlTenantTransient ''t1'' = (Some [vA, vA2], None)
   \<and> checkNamespacesOfTenantCluster ctlTenantTransient ''t1'' st0 =
       (Panicked,
        st0\<lparr>trace := [EvList ''t1'', EvListerGet ''t1-ns1''],
            logs := [(InfoV4, CheckCluster ''t1''),
                     (Error, GetSuperFailed ''t1-ns1'' (OtherError ''timeout''))]\<rparr>)
   \<and> fst (checkNamespaces ctlTenantTransient st0) = Panicked"
  by (simp add: ctlTenantTransient_def ctl0_def vA_def vA2_def st0_def
        checkNamespaces_def checkNamespacesOfTenantCluster_def checkVNamespace_def
        effect_defs Let_def)

subsection \<open>The cycle\<close>

text \<open>
  C7: when the tenant registry reports no cluster, the cycle asks for the cluster names,
  logs that it gives up and returns. It scans no tenant, does not list the super master
  namespaces, makes no other call, emits no decision, and leaves the counters and the
  scan durations as they were.
\<close>

theorem C7_no_tenants_no_op:
  assumes "GetClusterNames c = []"
  shows "checkNamespaces c st =
           (Returned, st\<lparr>trace := trace st @ [EvGetClusterNames],
                          logs := logs st @ [(Info, NoClusters)]\<rparr>)
       \<and> decisions (snd (checkNamespaces c st)) = decisions st
       \<and> CheckerRemedyStats (snd (checkNamespaces c st)) = CheckerRemedyStats st
       \<and> scanDurations (snd (checkNamespaces c st)) = scanDurations st"
  using assms by (simp add: checkNamespaces_def effect_defs decisions_def)

theorem C7_no_tenants_no_op_witness:
  "GetClusterNames ctlEmpty = []
   \<and> checkNamespaces ctlEmpty st0 =
       (Returned, st0\<lparr>trace := [EvGetClusterNames], logs := [(Info, NoClusters)]\<rparr>)"
proof -
  have h: "GetClusterNames ctlEmpty = []" by (simp add: ctlEmpty_def)
  from C7_no_tenants_no_op [OF h, of st0] h show ?thesis by (simp add: st0_def)
qed

text \<open>
  C5, as the code has it: let a super master namespace \<open>p\<close> and a tenant namespace \<open>v\<close>
  map to each other (the owner of \<open>p\<close> is looked up as \<open>v\<close>, the super master name of
  \<open>v\<close> is looked up as \<open>p\<close>) and let the delegated UID of \<open>p\<close> differ from the UID of
  \<open>v\<close>. In a cycle that completes and lists \<open>p\<close> once, exactly one delete is issued for
  \<open>p\<close>, and it comes from the orphan scan: the tenant scans issue none. For \<open>v\<close> the
  tenant scan writes the mismatch to the log with the severity of an error, which is its
  one decision, a reported mismatch; it makes no delete and no requeue and changes no
  counter.
\<close>

theorem C5_mismatch_deleted_once_by_orphan_scan:
  assumes "fst (checkNamespaces c st) = Returned"
    and "clusterName \<in> set (GetClusterNames c)"
    and "nsListerList c = (ps, None)" and "p \<in> set ps" and "distinct (map Name ps)"
    and "GetVirtualOwner c p = (clusterName, vNamespace)"
    and "clusterName \<noteq> []" and "vNamespace \<noteq> []"
    and "mcGet c clusterName [] vNamespace = (Some v, None)"
    and "ToSuperMasterNamespace c clusterName (Name v) = Name p"
    and "nsListerGet c (Name p) = (Some p, None)"
    and "annotation p (LabelUID c) \<noteq> UID v"
  shows "deleteCount (Name p) (trace (snd (checkNamespaces c st))) =
           deleteCount (Name p) (trace st) + 1
       \<and> deleteCount (Name p)
           (trace (snd (checkTenantClusters c (GetClusterNames c) (emit EvGetClusterNames st)))) =
           deleteCount (Name p) (trace st)
       \<and> (\<forall>s. checkVNamespace c clusterName v s =
            (Returned, s\<lparr>trace := trace s @ [EvListerGet (Name p)],
                          logs := logs s @ [(Error, DelegatedUIDDiffers (Name p))]\<rparr>)
          \<and> decisions (snd (checkVNamespace c clusterName v s)) =
              decisions s + {#ReportMismatch (Name p)#})"
proof -
  let ?n = "Name p"
  let ?s0 = "emit EvGetClusterNames st"
  obtain oc1 s1 where t: "checkTenantClusters c (GetClusterNames c) ?s0 = (oc1, s1)"
    by (cases "checkTenantClusters c (GetClusterNames c) ?s0")
  let ?s2 = "emit EvListerList s1"
  obtain oc3 s3 where o: "checkPNamespaces c ps ?s2 = (oc3, s3)"
    by (cases "checkPNamespaces c ps ?s2")
  from assms(2) have ne: "GetClusterNames c \<noteq> []" by auto
  have oc1: "oc1 = Returned"
    using assms(1) ne t by (cases oc1) (simp_all add: checkNamespaces_def)
  have cyc: "checkNamespaces c st = (oc3, RecordCheckerScanDuration ''namespace'' s3)"
    using ne t oc1 assms(3) o by (simp add: checkNamespaces_def)
  with assms(1) have oc3: "oc3 = Returned" by simp
  have tenants: "deleteCount ?n (trace s1) = deleteCount ?n (trace st)"
    using checkTenantClusters_deleteCount [of ?n c "GetClusterNames c" ?s0] t
    by (simp add: emit_def deleteCount_def)
  from assms(4) obtain pre post where ps: "ps = pre @ p # post"
    by (auto simp: in_set_conv_decomp)
  with assms(5) have npre: "?n \<notin> Name ` set pre" and npost: "?n \<notin> Name ` set post"
    by auto
  obtain oca sa where a: "checkPNamespaces c pre ?s2 = (oca, sa)"
    by (cases "checkPNamespaces c pre ?s2")
  have oca: "oca = Returned"
    using o oc3 a unfolding ps by (cases oca) (simp_all add: checkPNamespaces_append)
  let ?sb = "deletePNamespace c p
     (klog Warning (DelegatedUIDDiffers ?n) (emit (EvGet clusterName [] vNamespace) sa))"
  have body: "checkPNamespace c p sa = (Returned, ?sb)"
    using assms(6-9,12) by (rule checkPNamespace_mismatch)
  have s3: "s3 = snd (checkPNamespaces c post ?sb)"
    using o a oca body unfolding ps by (simp add: checkPNamespaces_append)
  have "deleteCount ?n (trace sa) = deleteCount ?n (trace ?s2)"
    using checkPNamespaces_deleteCount_other [OF npre, of c ?s2] a by simp
  moreover have "deleteCount ?n (trace ?sb) = deleteCount ?n (trace sa) + 1"
    by (simp add: deletePNamespace_deleteCount) (simp add: effect_defs deleteCount_def)
  moreover have "deleteCount ?n (trace s3) = deleteCount ?n (trace ?sb)"
    unfolding s3 by (rule checkPNamespaces_deleteCount_other [OF npost])
  moreover have "deleteCount ?n (trace ?s2) = deleteCount ?n (trace s1)"
    by (simp add: emit_def deleteCount_def)
  ultimately have orphan: "deleteCount ?n (trace s3) = deleteCount ?n (trace st) + 1"
    using tenants by simp
  have branch: "checkVNamespace c clusterName v s =
      (Returned, s\<lparr>trace := trace s @ [EvListerGet ?n],
                    logs := logs s @ [(Error, DelegatedUIDDiffers ?n)]\<rparr>)" for s
    using assms(10-12) by (simp add: checkVNamespace_def Let_def effect_defs)
  have dec: "decisions (snd (checkVNamespace c clusterName v s)) =
      decisions s + {#ReportMismatch ?n#}" for s
    using assms(10-12) by (simp add: checkVNamespace_def Let_def)
  have count: "deleteCount ?n (trace (snd (checkNamespaces c st))) =
      deleteCount ?n (trace st) + 1"
    using orphan unfolding cyc by (simp add: RecordCheckerScanDuration_def)
  have tcount: "deleteCount ?n
      (trace (snd (checkTenantClusters c (GetClusterNames c) (emit EvGetClusterNames st)))) =
      deleteCount ?n (trace st)"
    using tenants t by simp
  from count tcount branch dec show ?thesis by blast
qed

theorem C5_mismatch_deleted_once_by_orphan_scan_witness:
  "fst (checkNamespaces ctlMismatch st0) = Returned
   \<and> ''t1'' \<in> set (GetClusterNames ctlMismatch)
   \<and> nsListerList ctlMismatch = ([pB], None)
   \<and> GetVirtualOwner ctlMismatch pB = (''t1'', ''ns1'')
   \<and> mcGet ctlMismatch ''t1'' [] ''ns1'' = (Some vC, None)
   \<and> ToSuperMasterNamespace ctlMismatch ''t1'' (Name vC) = Name pB
   \<and> nsListerGet ctlMismatch (Name pB) = (Some pB, None)
   \<and> annotation pB (LabelUID ctlMismatch) \<noteq> UID vC
   \<and> deleteCount (Name pB) (trace (snd (checkNamespaces ctlMismatch st0))) = 1"
proof -
  have h1: "fst (checkNamespaces ctlMismatch st0) = Returned"
    by (simp add: ctlMismatch_def ctl0_def owner0_def pB_def vC_def annotation_def st0_def
          checkNamespaces_def checkNamespacesOfTenantCluster_def checkVNamespace_def
          checkPNamespace_unfold deletePNamespace_def effect_defs Let_def)
  have h2: "''t1'' \<in> set (GetClusterNames ctlMismatch)" by (simp add: ctlMismatch_def ctl0_def)
  have h3: "nsListerList ctlMismatch = ([pB], None)" by (simp add: ctlMismatch_def ctl0_def)
  have h4: "pB \<in> set [pB]" "distinct (map Name [pB])" by simp_all
  have h6: "GetVirtualOwner ctlMismatch pB = (''t1'', ''ns1'')"
    by (simp add: ctlMismatch_def ctl0_def owner0_def pB_def annotation_def)
  have h9: "mcGet ctlMismatch ''t1'' [] ''ns1'' = (Some vC, None)"
    by (simp add: ctlMismatch_def ctl0_def)
  have h10: "ToSuperMasterNamespace ctlMismatch ''t1'' (Name vC) = Name pB"
    by (simp add: ctlMismatch_def ctl0_def vC_def pB_def)
  have h11: "nsListerGet ctlMismatch (Name pB) = (Some pB, None)"
    by (simp add: ctlMismatch_def ctl0_def)
  have h12: "annotation pB (LabelUID ctlMismatch) \<noteq> UID vC"
    by (simp add: ctlMismatch_def ctl0_def vC_def pB_def annotation_def)
  have z: "deleteCount (Name pB) (trace st0) = 0" by (simp add: st0_def deleteCount_def)
  from C5_mismatch_deleted_once_by_orphan_scan [OF h1 h2 h3 h4 h6 _ _ h9 h10 h11 h12]
    h1 h2 h3 h6 h9 h10 h11 h12 z
  show ?thesis by simp
qed

text \<open>
  The claim C5 as written has the tenant scan log a warning and emit no decision. Here
  the tenant namespace \<open>ns1\<close> has the UID \<open>u2\<close> and its super master namespace the
  delegated UID \<open>u1\<close>: the line the tenant scan logs has the severity of an error, no
  warning is in its log, and the reported mismatch is a decision.
\<close>

theorem C5_tenant_mismatch_logged_as_error_counterexample:
  "nsListerGet ctlMismatch (ToSuperMasterNamespace ctlMismatch ''t1'' (Name vC)) = (Some pB, None)
   \<and> annotation pB (LabelUID ctlMismatch) \<noteq> UID vC
   \<and> logs (snd (checkVNamespace ctlMismatch ''t1'' vC st0)) =
       [(Error, DelegatedUIDDiffers ''t1-ns1'')]
   \<and> (Warning, DelegatedUIDDiffers ''t1-ns1'')
       \<notin> set (logs (snd (checkVNamespace ctlMismatch ''t1'' vC st0)))
   \<and> decisions (snd (checkVNamespace ctlMismatch ''t1'' vC st0)) =
       {#ReportMismatch ''t1-ns1''#}"
  by (simp add: ctlMismatch_def ctl0_def pB_def vC_def annotation_def st0_def
        checkVNamespace_def effect_defs decisions_def Let_def)

text \<open>
  C9: two cycles run one after the other against the same collaborators emit the same
  multiset of decisions and end the same way, whatever the deletes and requeues of the
  first cycle answered.
\<close>

theorem C9_cycle_decisions_repeat:
  "decisions (snd (checkNamespaces c (snd (checkNamespaces c st))))
       - decisions (snd (checkNamespaces c st))
     = decisions (snd (checkNamespaces c st)) - decisions st
   \<and> fst (checkNamespaces c (snd (checkNamespaces c st))) = fst (checkNamespaces c st)"
proof -
  from checkNamespaces_steady [of c] obtain oc D where
    s: "\<forall>st. fst (checkNamespaces c st) = oc
          \<and> decisions (snd (checkNamespaces c st)) = decisions st + D" by blast
  let ?s1 = "snd (checkNamespaces c st)"
  from s have "decisions ?s1 = decisions st + D"
    and "decisions (snd (checkNamespaces c ?s1)) = decisions ?s1 + D"
    and "fst (checkNamespaces c ?s1) = oc" and "fst (checkNamespaces c st) = oc" by blast+
  then show ?thesis by simp
qed

subsection \<open>Starting the checker\<close>

lemma Until_checkNamespaces_grows:
  "\<exists>es. trace (snd (Until (checkNamespaces c) n st)) = trace st @ es \<and> (0 < n \<longrightarrow> es \<noteq> [])"
proof (induction n arbitrary: st)
  case 0
  show ?case by simp
next
  case (Suc n)
  obtain oc s where step: "checkNamespaces c st = (oc, s)" by (cases "checkNamespaces c st")
  from checkNamespaces_extends [of c st] step obtain es where
    es: "trace s = trace st @ EvGetClusterNames # es" by auto
  show ?case
  proof (cases oc)
    case Panicked
    with step es show ?thesis by simp
  next
    case Returned
    from Suc.IH [of s] obtain es' where
      "trace (snd (Until (checkNamespaces c) n s)) = trace s @ es'" by blast
    with step es Returned show ?thesis by simp
  qed
qed

text \<open>
  C8: when the stop signal fires before the caches have synced, \<open>StartPeriodChecker\<close>
  returns an error and leaves the state untouched; since every cycle adds to the trace,
  no cycle has run. When the caches have synced it runs the periodic loop, a cycle for
  every period that starts before the stop, and does not return an error: it returns
  nil when the loop ends, unless a cycle has panicked.
\<close>

theorem C8_start_gated_by_cache_sync:
  "(\<not> WaitForCacheSync r \<longrightarrow>
      (\<exists>msg. StartPeriodChecker c r st = (ReturnedError msg, st)))
   \<and> (WaitForCacheSync r \<longrightarrow>
        (\<forall>msg. fst (StartPeriodChecker c r st) \<noteq> ReturnedError msg)
      \<and> snd (StartPeriodChecker c r st) = snd (Until (checkNamespaces c) (periodsBeforeStop r) st)
      \<and> (fst (StartPeriodChecker c r st) = ReturnedNil
           \<longleftrightarrow> fst (Until (checkNamespaces c) (periodsBeforeStop r) st) = Returned)
      \<and> (0 < periodsBeforeStop r \<longrightarrow> trace (snd (StartPeriodChecker c r st)) \<noteq> trace st))
   \<and> (\<forall>s. trace (snd (checkNamespaces c s)) \<noteq> trace s)"
proof -
  obtain oc s where u: "Until (checkNamespaces c) (periodsBeforeStop r) st = (oc, s)"
    by (cases "Until (checkNamespaces c) (periodsBeforeStop r) st")
  from Until_checkNamespaces_grows [of c "periodsBeforeStop r" st] u
  have g: "0 < periodsBeforeStop r \<longrightarrow> trace s \<noteq> trace st" by auto
  show ?thesis
    using u g checkNamespaces_grows [of c]
    by (cases oc) (simp_all add: StartPeriodChecker_def)
qed

theorem C8_start_gated_by_cache_sync_witness:
  "\<not> WaitForCacheSync runStopped
   \<and> StartPeriodChecker ctl0 runStopped st0 =
       (ReturnedError ''failed to wait for caches to sync before starting Namespace checker'', st0)
   \<and> WaitForCacheSync runSynced
   \<and> fst (StartPeriodChecker ctl0 runSynced st0) = ReturnedNil
   \<and> trace (snd (StartPeriodChecker ctl0 runSynced st0)) \<noteq> trace st0"
proof -
  have h1: "\<not> WaitForCacheSync runStopped" by (simp add: runStopped_def)
  have h2: "WaitForCacheSync runSynced" "0 < periodsBeforeStop runSynced"
    by (simp_all add: runSynced_def)
  have e: "StartPeriodChecker ctl0 runStopped st0 =
      (ReturnedError ''failed to wait for caches to sync before starting Namespace checker'', st0)"
    by (simp add: StartPeriodChecker_def runStopped_def)
  have c1: "checkNamespaces ctl0 s = (Returned,
      s\<lparr>trace := trace s @ [EvGetClusterNames, EvList ''t1'', EvListerList],
        logs := logs s @ [(InfoV4, CheckCluster ''t1'')],
        scanDurations := scanDurations s @ [''namespace'']\<rparr>)" for s
    by (simp add: ctl0_def checkNamespaces_def checkNamespacesOfTenantCluster_def effect_defs)
  have u: "fst (Until (checkNamespaces ctl0) (periodsBeforeStop runSynced) st0) = Returned"
    by (simp add: runSynced_def numeral_2_eq_2 c1)
  from C8_start_gated_by_cache_sync [of runStopped ctl0 st0] h1 e
  have a: "StartPeriodChecker ctl0 runStopped st0 =
      (ReturnedError ''failed to wait for caches to sync before starting Namespace checker'', st0)"
    by blast
  from C8_start_gated_by_cache_sync [of runSynced ctl0 st0] h2 u
  have b: "fst (StartPeriodChecker ctl0 runSynced st0) = ReturnedNil"
    and c: "trace (snd (StartPeriodChecker ctl0 runSynced st0)) \<noteq> trace st0"
    by blast+
  from h1 h2(1) a b c show ?thesis by blast
qed

end
